theory Spec2Isabelle
  imports Complex_Main
begin

section \<open>Values, statuses and faults\<close>

text \<open>
  The exit statuses of \<^verbatim>\<open>ocl.h\<close> (listed in the manual page of getOCLStationData).
\<close>

datatype status = SUCCESSFUL | UNSPECIFIED_PROBLEM | ZERO_LENGTH_FIELD | SKIPPED | HELP_LISTING

definition MAX_VARS :: nat where
  "MAX_VARS = 10"

definition MAX_LEVELS :: nat where
  "MAX_LEVELS = 6000"

text \<open>
  A C \<^verbatim>\<open>double\<close> is either not-a-number or a number. The decoder only divides a
  decoded integer of at most nine digits by a power of ten, negates, subtracts and
  compares, so numbers are kept as the reals they denote: rounding, overflow and
  infinities are not modelled. Every ordered comparison with NaN is false, as in C.
\<close>

datatype double = NaN | Fin real

fun dless :: "double \<Rightarrow> double \<Rightarrow> bool" where
  "dless (Fin x) (Fin y) = (x < y)"
| "dless _ _ = False"

fun dle :: "double \<Rightarrow> double \<Rightarrow> bool" where
  "dle (Fin x) (Fin y) = (x \<le> y)"
| "dle _ _ = False"

fun dsub :: "double \<Rightarrow> double \<Rightarrow> double" where
  "dsub (Fin x) (Fin y) = Fin (x - y)"
| "dsub _ _ = NaN"

fun dneg :: "double \<Rightarrow> double" where
  "dneg (Fin x) = Fin (- x)"
| "dneg NaN = NaN"

text \<open>
  What the process does instead of returning: \<^verbatim>\<open>exit(1)\<close> on end of file inside a
  field, a store outside an array, or a read through a null pointer (both undefined
  in C, faults here).
\<close>

datatype fault = UnexpectedEOF | BufferOverrun | ArrayOverrun | NullDereference

text \<open>
  Values that C leaves open, fixed once per machine: the result of converting NaN to
  \<^verbatim>\<open>long int\<close> (the function \<^verbatim>\<open>nan()\<close> cast by \<^verbatim>\<open>(long int)badValue\<close>), the content
  of an uninitialised \<^verbatim>\<open>long int\<close> local, and what a read beyond the end of an array
  of \<^verbatim>\<open>double\<close> finds there.
\<close>

record platform =
  nan_long :: int
  junk_long :: int
  junk_double :: double

text \<open>Conversion of a \<^verbatim>\<open>long int\<close> argument to an \<^verbatim>\<open>int\<close> parameter (32 bits, wrapping).\<close>

definition long_to_int :: "int \<Rightarrow> int" where
  "long_to_int x = (x + 2 ^ 31) mod 2 ^ 32 - 2 ^ 31"

section \<open>Characters and the input stream\<close>

text \<open>
  \<^verbatim>\<open>FILE *fp\<close> is the list of characters not yet read. \<^verbatim>\<open>fgetc\<close> takes the head;
  the empty list is end of file.
\<close>

definition is_newline :: "char \<Rightarrow> bool" where
  "is_newline c = (c = CHR 0x0A \<or> c = CHR 0x0D)"

definition isdigit :: "char \<Rightarrow> bool" where
  "isdigit c = (c \<in> set ''0123456789'')"

definition isspace :: "char \<Rightarrow> bool" where
  "isspace c = (c \<in> set [CHR '' '', CHR 0x09, CHR 0x0A, CHR 0x0B, CHR 0x0C, CHR 0x0D])"

definition digit_val :: "char \<Rightarrow> int" where
  "digit_val c = int (of_char c) - 48"

text \<open>The number of content bytes of a piece of input: line terminators do not count.\<close>

definition content :: "string \<Rightarrow> nat" where
  "content cs = length (filter (\<lambda>c. \<not> is_newline c) cs)"

text \<open>
  \<^verbatim>\<open>sscanf(valueStr, "%ld", value)\<close>: leading white space, an optional sign, then the
  longest run of digits; no digit is a matching failure and nothing is stored.
  \<^verbatim>\<open>valueStr\<close> is a C string: it ends at the first NUL.
\<close>

definition digits_value :: "string \<Rightarrow> int" where
  "digits_value ds = foldl (\<lambda>a c. 10 * a + digit_val c) 0 ds"

definition scan_digits :: "string \<Rightarrow> int option" where
  "scan_digits cs =
     (let ds = takeWhile isdigit cs in if ds = [] then None else Some (digits_value ds))"

definition sscanf_ld :: "string \<Rightarrow> int option" where
  "sscanf_ld valueStr =
     (let s = dropWhile isspace (takeWhile (\<lambda>c. c \<noteq> CHR 0x00) valueStr)
      in case s of
           [] \<Rightarrow> None
         | c # cs \<Rightarrow>
             if c = CHR ''-'' then map_option uminus (scan_digits cs)
             else if c = CHR ''+'' then scan_digits cs
             else scan_digits (c # cs))"

section \<open>getIntDigits\<close>

text \<open>
  The \<^verbatim>\<open>for\<close> loop of getIntDigits. \<^verbatim>\<open>k\<close> is \<^verbatim>\<open>numDigits - i\<close>, \<^verbatim>\<open>valueStr\<close> the
  characters stored so far through \<^verbatim>\<open>p\<close>, \<^verbatim>\<open>nextch\<close> the last character read.
  \<^verbatim>\<open>nextch\<close> is a (signed) \<^verbatim>\<open>char\<close>, so the byte 0xFF compares equal to \<^verbatim>\<open>EOF\<close>.
  \<^verbatim>\<open>valueStr\<close> has ten elements: a store at index ten or beyond is a fault.
\<close>

fun getIntDigits_loop :: "nat \<Rightarrow> string \<Rightarrow> char \<Rightarrow> string \<Rightarrow> fault + (string \<times> char \<times> string)" where
  "getIntDigits_loop k valueStr nextch [] =
     (if k = 0 then Inr (valueStr, nextch, []) else Inl UnexpectedEOF)"
| "getIntDigits_loop k valueStr nextch (c # cs) =
     (if k = 0 then Inr (valueStr, nextch, c # cs)
      else if c = CHR 0xFF then Inl UnexpectedEOF
      else if is_newline c then getIntDigits_loop k valueStr c cs
      else if 10 \<le> length valueStr then Inl BufferOverrun
      else getIntDigits_loop (k - 1) (valueStr @ [c]) c cs)"

text \<open>
  getIntDigits returns the status, what it stored through \<^verbatim>\<open>value\<close> (\<open>None\<close>: nothing
  was stored, \<^verbatim>\<open>*value\<close> keeps its content) and the rest of the stream. Ten stored
  characters leave \<^verbatim>\<open>valueStr\<close> without its terminating NUL, and \<^verbatim>\<open>sscanf\<close> would
  read beyond it.
\<close>

definition getIntDigits :: "platform \<Rightarrow> int \<Rightarrow> string \<Rightarrow> fault + (status \<times> int option \<times> string)" where
  "getIntDigits pf numDigits fp =
     (case getIntDigits_loop (nat numDigits) [] (CHR 0x00) fp of
        Inl e \<Rightarrow> Inl e
      | Inr (valueStr, nextch, rest) \<Rightarrow>
          if 0 < numDigits \<and> isdigit nextch then
            (if 10 \<le> length valueStr then Inl BufferOverrun
             else Inr (SUCCESSFUL, sscanf_ld valueStr, rest))
          else if numDigits = 0 \<or> (numDigits = 1 \<and> nextch = CHR ''-'') then
            Inr (ZERO_LENGTH_FIELD, Some (nan_long pf), rest)
          else Inr (UNSPECIFIED_PROBLEM, None, rest))"

text \<open>The content of a \<^verbatim>\<open>long int\<close> after a call that may or may not have stored into it.\<close>

definition stored :: "int \<Rightarrow> int option \<Rightarrow> int" where
  "stored old w = (case w of None \<Rightarrow> old | Some v \<Rightarrow> v)"

section \<open>getVarlenIntField\<close>

text \<open>
  \<^verbatim>\<open>old\<close> is the content of \<^verbatim>\<open>*value\<close> at the call, \<^verbatim>\<open>bytesLeftInStation\<close> the budget.
  The result is the status, what was stored through \<^verbatim>\<open>value\<close>, the new budget and the
  rest of the stream. \<^verbatim>\<open>bytesInNextField\<close> is an uninitialised local until the first
  read stores into it.
\<close>

definition getVarlenIntField ::
  "platform \<Rightarrow> int \<Rightarrow> int \<Rightarrow> string \<Rightarrow> fault + (status \<times> int option \<times> int \<times> string)" where
  "getVarlenIntField pf old bytesLeftInStation fp =
     (case getIntDigits pf 1 fp of
        Inl e \<Rightarrow> Inl e
      | Inr (status, w1, fp1) \<Rightarrow>
          let bytesInNextField = stored (junk_long pf) w1;
              bytesLeft1 = bytesLeftInStation - 1
          in case getIntDigits pf (long_to_int bytesInNextField) fp1 of
               Inl e \<Rightarrow> Inl e
             | Inr (status2, w2, fp2) \<Rightarrow>
                 if status2 = ZERO_LENGTH_FIELD then
                   Inr (ZERO_LENGTH_FIELD, Some (nan_long pf), bytesLeft1, fp2)
                 else
                   Inr (SUCCESSFUL, w2,
                        (if bytesLeft1 < 0 then stored old w2 - bytesInNextField - 1
                         else bytesLeft1 - bytesInNextField),
                        fp2))"

section \<open>getVarlenFloatField\<close>

text \<open>\<^verbatim>\<open>(double)intvalue/pow(10.,(double)precision)\<close>, on the reals.\<close>

definition scaled :: "int \<Rightarrow> int \<Rightarrow> double" where
  "scaled intvalue precision =
     (if 0 \<le> precision then Fin (real_of_int intvalue / 10 ^ nat precision)
      else Fin (real_of_int intvalue * 10 ^ nat (- precision)))"

text \<open>
  The result is the status, what was stored through \<^verbatim>\<open>value\<close>, the new budget and the
  rest of the stream. The locals \<^verbatim>\<open>totalDigits\<close>, \<^verbatim>\<open>precision\<close> and \<^verbatim>\<open>intvalue\<close> are
  uninitialised until a read stores into them.
\<close>

definition getVarlenFloatField ::
  "platform \<Rightarrow> int \<Rightarrow> string \<Rightarrow> fault + (status \<times> double option \<times> int \<times> string)" where
  "getVarlenFloatField pf bytesLeftInStation fp =
     (case getIntDigits pf 1 fp of
        Inl e \<Rightarrow> Inl e
      | Inr (status, wsig, fp1) \<Rightarrow>
          if status = SUCCESSFUL then
            (case getIntDigits pf 1 fp1 of
               Inl e \<Rightarrow> Inl e
             | Inr (status2, wtot, fp2) \<Rightarrow>
                 (case getIntDigits pf 1 fp2 of
                    Inl e \<Rightarrow> Inl e
                  | Inr (status3, wprec, fp3) \<Rightarrow>
                      let totalDigits = stored (junk_long pf) wtot;
                          precision = stored (junk_long pf) wprec
                      in case getIntDigits pf (long_to_int totalDigits) fp3 of
                           Inl e \<Rightarrow> Inl e
                         | Inr (status4, wint, fp4) \<Rightarrow>
                             Inr (SUCCESSFUL,
                                  Some (scaled (stored (junk_long pf) wint) precision),
                                  bytesLeftInStation - 1 - 1 - 1 - totalDigits, fp4)))
          else if status = ZERO_LENGTH_FIELD then
            Inr (ZERO_LENGTH_FIELD, Some NaN, (bytesLeftInStation - 1), fp1)
          else Inr (status, None, (bytesLeftInStation - 1), fp1))"

section \<open>skipToNextStation\<close>

text \<open>
  The skip loop reads with \<^verbatim>\<open>fgetc\<close> into an \<^verbatim>\<open>int\<close> and never tests for end of file:
  at end of file every further iteration reads \<^verbatim>\<open>EOF\<close>, which is no line terminator,
  and counts. \<^verbatim>\<open>k\<close> is \<^verbatim>\<open>bytesLeftInStation - i\<close>.
\<close>

fun skip_loop :: "nat \<Rightarrow> string \<Rightarrow> string" where
  "skip_loop k [] = []"
| "skip_loop k (c # cs) =
     (if k = 0 then c # cs
      else if is_newline c then skip_loop k cs
      else skip_loop (k - 1) cs)"

text \<open>
  \<^verbatim>\<open>fgets(dummy, 80, fp)\<close> reads at most 79 characters and stops after a line feed;
  \<open>fgets_line n fp\<close> is what it reads with room for \<open>n\<close> characters.
\<close>

fun fgets_line :: "nat \<Rightarrow> string \<Rightarrow> string" where
  "fgets_line n [] = []"
| "fgets_line n (c # cs) =
     (if n = 0 then []
      else if c = CHR 0x0A then [c]
      else c # fgets_line (n - 1) cs)"

definition fgets_rest :: "nat \<Rightarrow> string \<Rightarrow> string" where
  "fgets_rest n fp = drop (length (fgets_line n fp)) fp"

text \<open>
  The closing \<^verbatim>\<open>fgetc\<close>/\<^verbatim>\<open>ungetc\<close> pair leaves the stream where it was. The status
  is always SUCCESSFUL.
\<close>

definition skipToNextStation :: "int \<Rightarrow> string \<Rightarrow> status \<times> string" where
  "skipToNextStation bytesLeftInStation fp =
     (SUCCESSFUL, fgets_rest 79 (skip_loop (nat bytesLeftInStation) fp))"

text \<open>A machine for the worked examples: NaN converts to the least \<^verbatim>\<open>long int\<close>.\<close>

definition example_platform :: platform where
  "example_platform = \<lparr>nan_long = - 9223372036854775808, junk_long = 2, junk_double = Fin 0\<rparr>"

section \<open>checkVarsInclAndNoErrors\<close>

text \<open>
  The arrays are read through pointers, so they are functions of the index. The two
  nested loops count in \<^verbatim>\<open>numMatch\<close> the pairs \<open>(j, k)\<close> with equal codes, and in
  \<^verbatim>\<open>applicableErrorFlags\<close> those of them whose error code is positive.
\<close>

definition checkVars_counts ::
  "(nat \<Rightarrow> int) \<Rightarrow> (nat \<Rightarrow> int) \<Rightarrow> (nat \<Rightarrow> int) \<Rightarrow> int \<Rightarrow> int \<Rightarrow> int \<times> int" where
  "checkVars_counts varRequestedList varCodeList errCodeList numVarsRequested numVarCodes =
     fold (\<lambda>j. fold (\<lambda>k (numMatch, applicableErrorFlags).
                        if varCodeList k = varRequestedList j then
                          (numMatch + 1,
                           if 0 < errCodeList k then applicableErrorFlags + 1
                           else applicableErrorFlags)
                        else (numMatch, applicableErrorFlags))
                    [0..<nat numVarCodes])
          [0..<nat numVarsRequested] (0, 0)"

definition checkVarsInclAndNoErrors ::
  "(nat \<Rightarrow> int) \<Rightarrow> (nat \<Rightarrow> int) \<Rightarrow> (nat \<Rightarrow> int) \<Rightarrow> int \<Rightarrow> int \<Rightarrow> int" where
  "checkVarsInclAndNoErrors varRequestedList varCodeList errCodeList numVarsRequested numVarCodes =
     (case checkVars_counts varRequestedList varCodeList errCodeList numVarsRequested numVarCodes of
        (numMatch, applicableErrorFlags) \<Rightarrow>
          if numVarsRequested \<le> numMatch \<and> applicableErrorFlags = 0 then 1 else 0)"

section \<open>zeroLatLonOkay\<close>

text \<open>\<^verbatim>\<open>wmoSquare\<close> is a C string in an array of five characters: beyond its end is NUL.\<close>

definition char_at :: "string \<Rightarrow> nat \<Rightarrow> char" where
  "char_at s i = (if i < length s then s ! i else CHR 0x00)"

definition zeroLatLonOkay :: "string \<Rightarrow> string \<Rightarrow> int" where
  "zeroLatLonOkay wmoSquare latlon =
     (if latlon = ''lat'' \<and> char_at wmoSquare 1 = CHR ''0'' then 1
      else if latlon = ''lon'' \<and> char_at wmoSquare 2 = CHR ''0'' \<and> char_at wmoSquare 3 = CHR ''0'' then 1
      else 0)"

section \<open>The station structure and the state of a call\<close>

text \<open>
  \<^verbatim>\<open>OCLStationType\<close> of \<^verbatim>\<open>ocl.h\<close>, without \<^verbatim>\<open>stationNumber\<close> and \<^verbatim>\<open>dbBathy\<close>, which
  getOCLStationData never touches. Arrays are functions of the index; their sizes
  (\<^verbatim>\<open>MAX_VARS\<close>, \<^verbatim>\<open>MAX_LEVELS\<close>) are checked where they are read and written.
  \<^verbatim>\<open>bottomDepthPtr\<close> points nowhere, to a \<^verbatim>\<open>double\<close> of the structure, or to the
  static \<^verbatim>\<open>databaseBathyValue\<close>.
\<close>

datatype long_dest =
    BytesInStation | OclStationNumber | CountryCode | CruiseNumber | Year | Month | Day
  | NumberOfLevels | StationType | NumberOfVarCodes | VarCode nat | ErrCodeForVarCode nat
  | BytesInCharPI | BytesInSecHdr | NumberOfSecHdrEntries | SecHdrCode nat | BytesInBioHdr
  | ErrCodeForDepthValue nat | ErrCodeForVarValue nat nat | Ld_dummy

datatype double_dest = Time | Lat | Lon | SecHdrValue nat | DepthValue nat | VarValue nat nat

datatype double_ptr = NULL | InStation double_dest | DatabaseBathy

record OCLStationType =
  bytesLeftInStation :: int
  bytesInStation :: int
  oclStationNumber :: int
  countryCode :: int
  cruiseNumber :: int
  year :: int
  month :: int
  day :: int
  numberOfLevels :: int
  stationType :: int
  numberOfVarCodes :: int
  varCode :: "nat \<Rightarrow> int"
  errCodeForVarCode :: "nat \<Rightarrow> int"
  bytesInCharPI :: int
  bytesInSecHdr :: int
  numberOfSecHdrEntries :: int
  secHdrCode :: "nat \<Rightarrow> int"
  bytesInBioHdr :: int
  time :: double
  lat :: double
  lon :: double
  secHdrValue :: "nat \<Rightarrow> double"
  depthValue :: "nat \<Rightarrow> double"
  varValue :: "nat \<Rightarrow> nat \<Rightarrow> double"
  errCodeForDepthValue :: "nat \<Rightarrow> int"
  errCodeForVarValue :: "nat \<Rightarrow> nat \<Rightarrow> int"
  bottomDepthPtr :: double_ptr
  bottomDepthSource :: char
  varListChecksOut :: int
  badLatLon :: int
  latlonInRange :: int
  monthInRange :: int
  yearInRange :: int
  enoughProfileLevels :: int

text \<open>The two warnings that getOCLStationData prints to \<^verbatim>\<open>stderr\<close>: the station
  ordinal and level count of the first, and the fixed second line.\<close>

datatype diagnostic = LevelsExceedMax int int | BotDepthMightBeWrong

text \<open>
  What a call reads and writes besides its result: the structure, the input stream, the
  bathymetry file (its lines, each already scanned by \<^verbatim>\<open>"%lf %lf %ld %lf\n"\<close>), the
  static \<^verbatim>\<open>databaseBathyValue\<close>, and \<^verbatim>\<open>stderr\<close>.
  \<open>regular\<close> is a ghost field: no function of the program reads it. It stays true as
  long as every length-prefixed field read so far began with a digit as its length,
  had no missing-value marker where its digits belong, and found the byte budget set
  and not yet used up.
\<close>

record world =
  stnData :: OCLStationType
  fp_in :: string
  fp_dbBathy :: "(double \<times> double \<times> int \<times> double) list"
  databaseBathyValue :: double
  stderr :: "diagnostic list"
  regular :: bool

text \<open>The arguments of getOCLStationData other than the structure and the two files.\<close>

record args =
  stn :: int
  wantProfileFlag :: bool
  skipFlag :: bool
  stnToSkipTo :: int
  varListFlag :: bool
  varList :: "nat \<Rightarrow> int"
  numVarsOnVarList :: int
  minLevelsFlag :: bool
  minLevels :: int
  latlonRegionFlag :: bool
  latlonRegion :: "nat \<Rightarrow> double"
  yearRangeFlag :: bool
  yearRange :: "nat \<Rightarrow> int"
  monthRangeFlag :: bool
  monthRange :: "nat \<Rightarrow> int"
  dbBathyFlag :: bool
  zeroLatLonFlag :: bool
  wmoSquare :: string

subsection \<open>Reading and writing through pointers into the structure\<close>

text \<open>
  A read beyond an array finds an unspecified value; a store beyond an array is a fault.
  \<^verbatim>\<open>ld_dummy\<close> is a local that is only ever written.
\<close>

fun load_long :: "platform \<Rightarrow> OCLStationType \<Rightarrow> long_dest \<Rightarrow> int" where
  "load_long pf s BytesInStation = bytesInStation s"
| "load_long pf s OclStationNumber = oclStationNumber s"
| "load_long pf s CountryCode = countryCode s"
| "load_long pf s CruiseNumber = cruiseNumber s"
| "load_long pf s Year = year s"
| "load_long pf s Month = month s"
| "load_long pf s Day = day s"
| "load_long pf s NumberOfLevels = numberOfLevels s"
| "load_long pf s StationType = stationType s"
| "load_long pf s NumberOfVarCodes = numberOfVarCodes s"
| "load_long pf s (VarCode j) = (if j < MAX_VARS then varCode s j else junk_long pf)"
| "load_long pf s (ErrCodeForVarCode j) =
     (if j < MAX_VARS then errCodeForVarCode s j else junk_long pf)"
| "load_long pf s BytesInCharPI = bytesInCharPI s"
| "load_long pf s BytesInSecHdr = bytesInSecHdr s"
| "load_long pf s NumberOfSecHdrEntries = numberOfSecHdrEntries s"
| "load_long pf s (SecHdrCode j) = (if j < MAX_VARS then secHdrCode s j else junk_long pf)"
| "load_long pf s BytesInBioHdr = bytesInBioHdr s"
| "load_long pf s (ErrCodeForDepthValue j) =
     (if j < MAX_LEVELS then errCodeForDepthValue s j else junk_long pf)"
| "load_long pf s (ErrCodeForVarValue k j) =
     (if k < MAX_VARS \<and> j < MAX_LEVELS then errCodeForVarValue s k j else junk_long pf)"
| "load_long pf s Ld_dummy = junk_long pf"

fun store_long :: "long_dest \<Rightarrow> int \<Rightarrow> OCLStationType \<Rightarrow> fault + OCLStationType" where
  "store_long BytesInStation v s = Inr (s\<lparr>bytesInStation := v\<rparr>)"
| "store_long OclStationNumber v s = Inr (s\<lparr>oclStationNumber := v\<rparr>)"
| "store_long CountryCode v s = Inr (s\<lparr>countryCode := v\<rparr>)"
| "store_long CruiseNumber v s = Inr (s\<lparr>cruiseNumber := v\<rparr>)"
| "store_long Year v s = Inr (s\<lparr>year := v\<rparr>)"
| "store_long Month v s = Inr (s\<lparr>month := v\<rparr>)"
| "store_long Day v s = Inr (s\<lparr>day := v\<rparr>)"
| "store_long NumberOfLevels v s = Inr (s\<lparr>numberOfLevels := v\<rparr>)"
| "store_long StationType v s = Inr (s\<lparr>stationType := v\<rparr>)"
| "store_long NumberOfVarCodes v s = Inr (s\<lparr>numberOfVarCodes := v\<rparr>)"
| "store_long (VarCode j) v s =
     (if j < MAX_VARS then Inr (s\<lparr>varCode := (varCode s)(j := v)\<rparr>) else Inl ArrayOverrun)"
| "store_long (ErrCodeForVarCode j) v s =
     (if j < MAX_VARS then Inr (s\<lparr>errCodeForVarCode := (errCodeForVarCode s)(j := v)\<rparr>)
      else Inl ArrayOverrun)"
| "store_long BytesInCharPI v s = Inr (s\<lparr>bytesInCharPI := v\<rparr>)"
| "store_long BytesInSecHdr v s = Inr (s\<lparr>bytesInSecHdr := v\<rparr>)"
| "store_long NumberOfSecHdrEntries v s = Inr (s\<lparr>numberOfSecHdrEntries := v\<rparr>)"
| "store_long (SecHdrCode j) v s =
     (if j < MAX_VARS then Inr (s\<lparr>secHdrCode := (secHdrCode s)(j := v)\<rparr>) else Inl ArrayOverrun)"
| "store_long BytesInBioHdr v s = Inr (s\<lparr>bytesInBioHdr := v\<rparr>)"
| "store_long (ErrCodeForDepthValue j) v s =
     (if j < MAX_LEVELS then Inr (s\<lparr>errCodeForDepthValue := (errCodeForDepthValue s)(j := v)\<rparr>)
      else Inl ArrayOverrun)"
| "store_long (ErrCodeForVarValue k j) v s =
     (if k < MAX_VARS \<and> j < MAX_LEVELS then
        Inr (s\<lparr>errCodeForVarValue := (errCodeForVarValue s)(k := (errCodeForVarValue s k)(j := v))\<rparr>)
      else Inl ArrayOverrun)"
| "store_long Ld_dummy v s = Inr s"

fun load_double :: "platform \<Rightarrow> OCLStationType \<Rightarrow> double_dest \<Rightarrow> double" where
  "load_double pf s Time = time s"
| "load_double pf s Lat = lat s"
| "load_double pf s Lon = lon s"
| "load_double pf s (SecHdrValue j) = (if j < MAX_VARS then secHdrValue s j else junk_double pf)"
| "load_double pf s (DepthValue j) = (if j < MAX_LEVELS then depthValue s j else junk_double pf)"
| "load_double pf s (VarValue k j) =
     (if k < MAX_VARS \<and> j < MAX_LEVELS then varValue s k j else junk_double pf)"

fun store_double :: "double_dest \<Rightarrow> double \<Rightarrow> OCLStationType \<Rightarrow> fault + OCLStationType" where
  "store_double Time v s = Inr (s\<lparr>time := v\<rparr>)"
| "store_double Lat v s = Inr (s\<lparr>lat := v\<rparr>)"
| "store_double Lon v s = Inr (s\<lparr>lon := v\<rparr>)"
| "store_double (SecHdrValue j) v s =
     (if j < MAX_VARS then Inr (s\<lparr>secHdrValue := (secHdrValue s)(j := v)\<rparr>) else Inl ArrayOverrun)"
| "store_double (DepthValue j) v s =
     (if j < MAX_LEVELS then Inr (s\<lparr>depthValue := (depthValue s)(j := v)\<rparr>) else Inl ArrayOverrun)"
| "store_double (VarValue k j) v s =
     (if k < MAX_VARS \<and> j < MAX_LEVELS then
        Inr (s\<lparr>varValue := (varValue s)(k := (varValue s k)(j := v))\<rparr>)
      else Inl ArrayOverrun)"

text \<open>\<^verbatim>\<open>*(stnData->bottomDepthPtr)\<close>.\<close>

fun deref :: "platform \<Rightarrow> world \<Rightarrow> double_ptr \<Rightarrow> fault + double" where
  "deref pf w NULL = Inl NullDereference"
| "deref pf w (InStation a) = Inr (load_double pf (stnData w) a)"
| "deref pf w DatabaseBathy = Inr (databaseBathyValue w)"

subsection \<open>Sequencing\<close>

definition andThen :: "fault + 'a \<Rightarrow> ('a \<Rightarrow> fault + 'b) \<Rightarrow> fault + 'b" where
  "andThen m f = (case m of Inl e \<Rightarrow> Inl e | Inr x \<Rightarrow> f x)"

text \<open>Statements run one after the other; a fault ends the run.\<close>

fun seq :: "('s \<Rightarrow> fault + 's) list \<Rightarrow> 's \<Rightarrow> fault + 's" where
  "seq [] w = Inr w"
| "seq (f # fs) w = andThen (f w) (seq fs)"

text \<open>
  \<^verbatim>\<open>for(j=0; j<n; j++) body\<close>, for a body that does not change \<^verbatim>\<open>n\<close>: every loop of
  getOCLStationData is bounded by a scalar field of the structure, and the bodies store
  only into array elements and the byte budget.
\<close>

definition for_upto :: "int \<Rightarrow> (nat \<Rightarrow> 's \<Rightarrow> fault + 's) \<Rightarrow> 's \<Rightarrow> fault + 's" where
  "for_upto n body = seq (map body [0..<nat n])"

subsection \<open>Calls of the field readers on the structure\<close>

definition store_opt_long :: "long_dest \<Rightarrow> int option \<Rightarrow> OCLStationType \<Rightarrow> fault + OCLStationType" where
  "store_opt_long dest wr s = (case wr of None \<Rightarrow> Inr s | Some v \<Rightarrow> store_long dest v s)"

definition store_opt_double ::
  "double_dest \<Rightarrow> double option \<Rightarrow> OCLStationType \<Rightarrow> fault + OCLStationType" where
  "store_opt_double dest wr s = (case wr of None \<Rightarrow> Inr s | Some v \<Rightarrow> store_double dest v s)"

text \<open>
  The ghost conditions. A length-prefixed integer field is regular when its length
  character is a digit, a zero-length result comes from the length 0 (not from a
  lone minus sign in a field of length 1), and the budget is either being set by the
  station's first field or still positive. A float field that is present is regular
  when its total-digits control is a digit.
\<close>

definition regular_varlenInt :: "platform \<Rightarrow> long_dest \<Rightarrow> int \<Rightarrow> string \<Rightarrow> bool" where
  "regular_varlenInt pf dest bytesLeft fp =
     (case getIntDigits pf 1 fp of
        Inl e \<Rightarrow> True
      | Inr (status, w1, fp1) \<Rightarrow>
          status = SUCCESSFUL \<and> w1 \<noteq> None \<and>
          (case getIntDigits pf (long_to_int (stored 0 w1)) fp1 of
             Inl e \<Rightarrow> True
           | Inr (status2, w2, fp2) \<Rightarrow>
               if status2 = ZERO_LENGTH_FIELD then stored 0 w1 = 0 \<and> 0 < bytesLeft
               else (bytesLeft = - 1 \<and> dest = BytesInStation) \<or> 0 < bytesLeft))"

definition regular_varlenFloat :: "platform \<Rightarrow> string \<Rightarrow> bool" where
  "regular_varlenFloat pf fp =
     (case getIntDigits pf 1 fp of
        Inl e \<Rightarrow> True
      | Inr (status, wsig, fp1) \<Rightarrow>
          status = SUCCESSFUL \<longrightarrow>
            (case getIntDigits pf 1 fp1 of
               Inl e \<Rightarrow> True
             | Inr (status2, wtot, fp2) \<Rightarrow> status2 = SUCCESSFUL \<and> wtot \<noteq> None))"

text \<open>\<^verbatim>\<open>getIntDigits(fp_in, numDigits, &(stnData->dest))\<close>.\<close>

definition call_getIntDigits :: "platform \<Rightarrow> int \<Rightarrow> long_dest \<Rightarrow> world \<Rightarrow> fault + (status \<times> world)" where
  "call_getIntDigits pf numDigits dest w =
     andThen (getIntDigits pf numDigits (fp_in w)) (\<lambda>(status, wr, rest).
     andThen (store_opt_long dest wr (stnData w)) (\<lambda>s.
       Inr (status, w\<lparr>stnData := s, fp_in := rest\<rparr>)))"

text \<open>\<^verbatim>\<open>getVarlenIntField(fp_in, &(stnData->dest), &(stnData->bytesLeftInStation))\<close>.\<close>

definition call_getVarlenIntField :: "platform \<Rightarrow> long_dest \<Rightarrow> world \<Rightarrow> fault + (status \<times> world)" where
  "call_getVarlenIntField pf dest w =
     andThen (getVarlenIntField pf (load_long pf (stnData w) dest)
                (bytesLeftInStation (stnData w)) (fp_in w)) (\<lambda>(status, wr, bytesLeft, rest).
     andThen (store_opt_long dest wr (stnData w)) (\<lambda>s.
       Inr (status,
            w\<lparr>stnData := s\<lparr>bytesLeftInStation := bytesLeft\<rparr>, fp_in := rest,
              regular := (regular w \<and>
                regular_varlenInt pf dest (bytesLeftInStation (stnData w)) (fp_in w))\<rparr>)))"

text \<open>\<^verbatim>\<open>getVarlenFloatField(fp_in, &(stnData->dest), &(stnData->bytesLeftInStation))\<close>.\<close>

definition call_getVarlenFloatField ::
  "platform \<Rightarrow> double_dest \<Rightarrow> world \<Rightarrow> fault + (status \<times> world)" where
  "call_getVarlenFloatField pf dest w =
     andThen (getVarlenFloatField pf (bytesLeftInStation (stnData w)) (fp_in w))
       (\<lambda>(status, wr, bytesLeft, rest).
     andThen (store_opt_double dest wr (stnData w)) (\<lambda>s.
       Inr (status,
            w\<lparr>stnData := s\<lparr>bytesLeftInStation := bytesLeft\<rparr>, fp_in := rest,
              regular := (regular w \<and> regular_varlenFloat pf (fp_in w))\<rparr>)))"

text \<open>
  The statement forms of getOCLStationData.
  \<^verbatim>\<open>if( getVarlenIntField(...) == ZERO_LENGTH_FIELD ) stnData->dest = dflt;\<close>, and the
  plain call when there is no default.
\<close>

definition assign_default :: "long_dest \<Rightarrow> int option \<Rightarrow> status \<Rightarrow> world \<Rightarrow> fault + world" where
  "assign_default dest dflt status w =
     (case dflt of
        None \<Rightarrow> Inr w
      | Some v \<Rightarrow>
          if status = ZERO_LENGTH_FIELD then
            andThen (store_long dest v (stnData w)) (\<lambda>s. Inr (w\<lparr>stnData := s\<rparr>))
          else Inr w)"

definition getVarlenIntField_else :: "platform \<Rightarrow> long_dest \<Rightarrow> int option \<Rightarrow> world \<Rightarrow> fault + world" where
  "getVarlenIntField_else pf dest dflt w =
     andThen (call_getVarlenIntField pf dest w) (\<lambda>(status, w'). assign_default dest dflt status w')"

text \<open>
  \<^verbatim>\<open>getIntDigits(fp_in, n, &(stnData->dest)); stnData->bytesLeftInStation-=n;\<close>, with
  the default assigned in between where the source tests for ZERO_LENGTH_FIELD.
\<close>

definition dec_bytesLeft :: "int \<Rightarrow> world \<Rightarrow> world" where
  "dec_bytesLeft n w =
     w\<lparr>stnData := (stnData w)\<lparr>bytesLeftInStation := bytesLeftInStation (stnData w) - n\<rparr>\<rparr>"

definition getIntDigits_else ::
  "platform \<Rightarrow> int \<Rightarrow> long_dest \<Rightarrow> int option \<Rightarrow> world \<Rightarrow> fault + world" where
  "getIntDigits_else pf n dest dflt w =
     andThen (call_getIntDigits pf n dest w) (\<lambda>(status, w').
     andThen (assign_default dest dflt status w') (\<lambda>w''. Inr (dec_bytesLeft n w'')))"

definition getVarlenFloatField_into :: "platform \<Rightarrow> double_dest \<Rightarrow> world \<Rightarrow> fault + world" where
  "getVarlenFloatField_into pf dest w =
     andThen (call_getVarlenFloatField pf dest w) (\<lambda>(status, w'). Inr w')"

text \<open>
  \<^verbatim>\<open>status = getVarlenFloatField(...); if( status != ZERO_LENGTH_FIELD ) {
  getIntDigits(fp_in, 1, &err); stnData->bytesLeftInStation-=1; }\<close>: a profile value
  and its error code.
\<close>

definition getValueAndErrCode :: "platform \<Rightarrow> double_dest \<Rightarrow> long_dest \<Rightarrow> world \<Rightarrow> fault + world" where
  "getValueAndErrCode pf dest err w =
     andThen (call_getVarlenFloatField pf dest w) (\<lambda>(status, w').
       if status \<noteq> ZERO_LENGTH_FIELD then getIntDigits_else pf 1 err None w' else Inr w')"

section \<open>getOCLStationData\<close>

subsection \<open>Station header\<close>

definition read_first_fields :: "platform \<Rightarrow> world \<Rightarrow> fault + world" where
  "read_first_fields pf =
     seq [getVarlenIntField_else pf BytesInStation (Some 0),
          getVarlenIntField_else pf OclStationNumber (Some (- 1))]"

definition read_varCodes :: "platform \<Rightarrow> world \<Rightarrow> fault + world" where
  "read_varCodes pf w =
     for_upto (numberOfVarCodes (stnData w))
       (\<lambda>j. seq [getVarlenIntField_else pf (VarCode j) None,
                 getIntDigits_else pf 1 (ErrCodeForVarCode j) None]) w"

definition read_header_rest :: "platform \<Rightarrow> world \<Rightarrow> fault + world" where
  "read_header_rest pf =
     seq [getIntDigits_else pf 2 CountryCode (Some (- 1)),
          getVarlenIntField_else pf CruiseNumber (Some (- 1)),
          getIntDigits_else pf 4 Year None,
          getIntDigits_else pf 2 Month None,
          getIntDigits_else pf 2 Day None,
          getVarlenFloatField_into pf Time,
          getVarlenFloatField_into pf Lat,
          getVarlenFloatField_into pf Lon,
          getVarlenIntField_else pf NumberOfLevels (Some 0),
          getIntDigits_else pf 1 StationType None,
          getIntDigits_else pf 2 NumberOfVarCodes None,
          read_varCodes pf]"

subsection \<open>Character and principal-investigator data, biological header\<close>

text \<open>
  Both blocks are skipped with the same code: the length field, then that many single
  characters read into \<^verbatim>\<open>ld_dummy\<close>, or the length set to 0 when the field is empty.
\<close>

definition read_skipped_block :: "platform \<Rightarrow> long_dest \<Rightarrow> world \<Rightarrow> fault + world" where
  "read_skipped_block pf dest w =
     andThen (call_getVarlenIntField pf dest w) (\<lambda>(status, w').
       if status \<noteq> ZERO_LENGTH_FIELD then
         for_upto (load_long pf (stnData w') dest) (\<lambda>j. getIntDigits_else pf 1 Ld_dummy None) w'
       else andThen (store_long dest 0 (stnData w')) (\<lambda>s. Inr (w'\<lparr>stnData := s\<rparr>)))"

subsection \<open>Secondary header\<close>

definition read_secHdr_entries :: "platform \<Rightarrow> world \<Rightarrow> fault + world" where
  "read_secHdr_entries pf w =
     for_upto (numberOfSecHdrEntries (stnData w))
       (\<lambda>j. seq [getVarlenIntField_else pf (SecHdrCode j) None,
                 getVarlenFloatField_into pf (SecHdrValue j)]) w"

definition read_secHdr :: "platform \<Rightarrow> world \<Rightarrow> fault + world" where
  "read_secHdr pf w =
     andThen (call_getVarlenIntField pf BytesInSecHdr w) (\<lambda>(status, w').
       if status \<noteq> ZERO_LENGTH_FIELD then
         seq [getVarlenIntField_else pf NumberOfSecHdrEntries None, read_secHdr_entries pf] w'
       else Inr (w'\<lparr>stnData := (stnData w')\<lparr>bytesInSecHdr := 0, numberOfSecHdrEntries := 0\<rparr>\<rparr>))"

subsection \<open>Bottom depth before the profile\<close>

text \<open>
  The pointer and source are initialised, then every secondary-header entry with code
  10 is assigned in turn, so the last one stays.
\<close>

definition assign_hdr_bottomDepth :: "platform \<Rightarrow> OCLStationType \<Rightarrow> OCLStationType" where
  "assign_hdr_bottomDepth pf s =
     fold (\<lambda>j s. if load_long pf s (SecHdrCode j) = 10
                  then s\<lparr>bottomDepthPtr := InStation (SecHdrValue j), bottomDepthSource := CHR ''h''\<rparr>
                  else s)
          [0..<nat (numberOfSecHdrEntries s)]
          (s\<lparr>bottomDepthPtr := NULL, bottomDepthSource := CHR ''-''\<rparr>)"

text \<open>
  \<^verbatim>\<open>fscanf(fp_dbBathy, "%lf %lf %ld %lf\n", ...)\<close> takes one line of the bathymetry
  file; at its end nothing is stored. The skipping path reads the depth into a dummy.
\<close>

definition fscanf_dbBathy :: "world \<Rightarrow> world" where
  "fscanf_dbBathy w =
     (case fp_dbBathy w of
        [] \<Rightarrow> w
      | (lon_db, lat_db, stn_db, depth) # rest \<Rightarrow> w\<lparr>fp_dbBathy := rest, databaseBathyValue := depth\<rparr>)"

definition fscanf_dbBathy_dummy :: "world \<Rightarrow> world" where
  "fscanf_dbBathy_dummy w = w\<lparr>fp_dbBathy := tl (fp_dbBathy w)\<rparr>"

definition select_database :: "world \<Rightarrow> world" where
  "select_database w =
     w\<lparr>stnData := (stnData w)\<lparr>bottomDepthPtr := DatabaseBathy, bottomDepthSource := CHR ''d''\<rparr>\<rparr>"

definition dbBathy_pass1 :: "platform \<Rightarrow> world \<Rightarrow> fault + world" where
  "dbBathy_pass1 pf w0 =
     (let w1 = fscanf_dbBathy w0;
          w = w1\<lparr>databaseBathyValue := dneg (databaseBathyValue w1)\<rparr>;
          s = stnData w
      in if dle (lat s) (Fin 72) \<and> dle (Fin (- 72)) (lat s) then
           (if bottomDepthSource s \<noteq> CHR ''h'' then Inr (select_database w)
            else andThen (deref pf w (bottomDepthPtr s)) (\<lambda>h.
                   if dless (dsub h (databaseBathyValue w)) (Fin (- 80)) \<or>
                      dless (Fin 80) (dsub h (databaseBathyValue w))
                   then Inr (select_database w) else Inr w))
         else Inr w)"

definition bottomDepth_pass1 :: "platform \<Rightarrow> args \<Rightarrow> world \<Rightarrow> fault + world" where
  "bottomDepth_pass1 pf a w0 =
     (let w = w0\<lparr>stnData := assign_hdr_bottomDepth pf (stnData w0)\<rparr>
      in if dbBathyFlag a then dbBathy_pass1 pf w else Inr w)"

subsection \<open>Deciding whether to read the rest of the station\<close>

definition flag :: "bool \<Rightarrow> int" where
  "flag b = (if b then 1 else 0)"

definition zero_ish :: "double \<Rightarrow> bool" where
  "zero_ish x = (dless x (Fin (1 / 10 ^ 7)) \<and> dless (Fin (- (1 / 10 ^ 7))) x)"

definition set_filter_flags :: "platform \<Rightarrow> args \<Rightarrow> OCLStationType \<Rightarrow> OCLStationType" where
  "set_filter_flags pf a s =
     s\<lparr>varListChecksOut :=
         (if varListFlag a then
            checkVarsInclAndNoErrors (varList a) (\<lambda>k. load_long pf s (VarCode k))
              (\<lambda>k. load_long pf s (ErrCodeForVarCode k)) (numVarsOnVarList a) (numberOfVarCodes s)
          else 1),
       latlonInRange :=
         flag (\<not> (latlonRegionFlag a \<and>
                   (dless (lon s) (latlonRegion a 0) \<or> dless (latlonRegion a 1) (lon s) \<or>
                    dless (lat s) (latlonRegion a 2) \<or> dless (latlonRegion a 3) (lat s)))),
       yearInRange :=
         flag (\<not> (yearRangeFlag a \<and> (year s < yearRange a 0 \<or> yearRange a 1 < year s))),
       monthInRange :=
         flag (\<not> (monthRangeFlag a \<and> (month s < monthRange a 0 \<or> monthRange a 1 < month s))),
       enoughProfileLevels := flag (\<not> (minLevelsFlag a \<and> numberOfLevels s < minLevels a)),
       badLatLon :=
         (if zeroLatLonFlag a then
            (if zero_ish (lat s) then flag (zeroLatLonOkay (wmoSquare a) ''lat'' = 0) else 0) +
            (if zero_ish (lon s) then flag (zeroLatLonOkay (wmoSquare a) ''lon'' = 0) else 0)
          else 0)\<rparr>"

definition reallyWantProfile :: "args \<Rightarrow> OCLStationType \<Rightarrow> bool" where
  "reallyWantProfile a s = (\<not> (\<not> wantProfileFlag a \<and> bottomDepthPtr s \<noteq> NULL))"

definition read_rest_wanted :: "args \<Rightarrow> OCLStationType \<Rightarrow> bool" where
  "read_rest_wanted a s =
     (reallyWantProfile a s \<and> varListChecksOut s \<noteq> 0 \<and> badLatLon s = 0 \<and>
      latlonInRange s \<noteq> 0 \<and> monthInRange s \<noteq> 0 \<and> yearInRange s \<noteq> 0 \<and>
      enoughProfileLevels s \<noteq> 0)"

subsection \<open>Profile\<close>

definition stdLevelDepth_table :: "real list" where
  "stdLevelDepth_table =
     [0, 10, 20, 30, 50, 75, 100, 125, 150, 200, 250, 300, 400, 500, 600, 700, 800, 900, 1000,
      1100, 1200, 1300, 1400, 1500, 1750, 2000, 2500, 3000, 3500, 4000, 4500, 5000, 5500, 6000,
      6500, 7000, 7500, 8000, 8500, 9000]"

definition stdLevelDepth :: "platform \<Rightarrow> nat \<Rightarrow> double" where
  "stdLevelDepth pf j =
     (if j < length stdLevelDepth_table then Fin (stdLevelDepth_table ! j) else junk_double pf)"

definition warn_levels :: "args \<Rightarrow> world \<Rightarrow> world" where
  "warn_levels a w =
     (if int MAX_LEVELS < numberOfLevels (stnData w) then
        w\<lparr>stderr := stderr w @ [LevelsExceedMax (stn a) (numberOfLevels (stnData w)),
                                 BotDepthMightBeWrong]\<rparr>
      else w)"

definition read_level :: "platform \<Rightarrow> nat \<Rightarrow> world \<Rightarrow> fault + world" where
  "read_level pf j w =
     andThen
       (if stationType (stnData w) = 0 then
          getValueAndErrCode pf (DepthValue j) (ErrCodeForDepthValue j) w
        else andThen (store_double (DepthValue j) (stdLevelDepth pf j) (stnData w))
               (\<lambda>s. Inr (w\<lparr>stnData := s\<rparr>)))
       (\<lambda>w'. for_upto (numberOfVarCodes (stnData w'))
                (\<lambda>k. getValueAndErrCode pf (VarValue k j) (ErrCodeForVarValue k j)) w')"

text \<open>\<^verbatim>\<open>for(j=0; j<stnData->numberOfLevels && j<MAX_LEVELS; j++)\<close>.\<close>

definition read_profile :: "platform \<Rightarrow> args \<Rightarrow> world \<Rightarrow> fault + world" where
  "read_profile pf a w0 =
     (let w = warn_levels a w0
      in for_upto (min (numberOfLevels (stnData w)) (int MAX_LEVELS)) (read_level pf) w)"

subsection \<open>Bottom depth after the profile\<close>

text \<open>
  \<^verbatim>\<open>assignLastProfileDepth\<close> is set in the branches that end in \<open>select_profile\<close>.
  The pointer is read only after the test against \<^verbatim>\<open>NULL\<close>.
\<close>

definition select_profile :: "world \<Rightarrow> world" where
  "select_profile w =
     w\<lparr>stnData := (stnData w)
        \<lparr>bottomDepthPtr := InStation (DepthValue (nat (numberOfLevels (stnData w) - 1))),
         bottomDepthSource := CHR ''p''\<rparr>\<rparr>"

definition bottomDepth_pass2 :: "platform \<Rightarrow> args \<Rightarrow> world \<Rightarrow> fault + world" where
  "bottomDepth_pass2 pf a w =
     (let s = stnData w;
          deepest = load_double pf s (DepthValue (nat (numberOfLevels s - 1)))
      in if 0 < numberOfLevels s then
           (if bottomDepthPtr s = NULL then Inr (select_profile w)
            else andThen (deref pf w (bottomDepthPtr s)) (\<lambda>v.
              if bottomDepthSource s = CHR ''h'' \<and> dless v deepest then
                (if dbBathyFlag a then
                   (if dless (databaseBathyValue w) deepest then Inr (select_profile w)
                    else Inr (select_database w))
                 else Inr (select_profile w))
              else if bottomDepthSource s = CHR ''d'' \<and> dless v deepest then
                Inr (select_profile w)
              else Inr w))
         else Inr w)"

subsection \<open>The function\<close>

definition realign :: "world \<Rightarrow> world" where
  "realign w = w\<lparr>fp_in := snd (skipToNextStation (bytesLeftInStation (stnData w)) (fp_in w))\<rparr>"

text \<open>Everything between the two first fields and the closing skipToNextStation.\<close>

definition read_station_body :: "platform \<Rightarrow> args \<Rightarrow> world \<Rightarrow> fault + world" where
  "read_station_body pf a w0 =
     andThen (seq [read_header_rest pf,
                   read_skipped_block pf BytesInCharPI,
                   read_secHdr pf,
                   bottomDepth_pass1 pf a] w0) (\<lambda>w1.
       let w = w1\<lparr>stnData := set_filter_flags pf a (stnData w1)\<rparr>
       in if read_rest_wanted a (stnData w) then
            seq [read_skipped_block pf BytesInBioHdr,
                 read_profile pf a,
                 bottomDepth_pass2 pf a] w
          else Inr w)"

definition getOCLStationData :: "platform \<Rightarrow> args \<Rightarrow> world \<Rightarrow> fault + (status \<times> world)" where
  "getOCLStationData pf a w0 =
     andThen (read_first_fields pf (w0\<lparr>stnData := (stnData w0)\<lparr>bytesLeftInStation := - 1\<rparr>\<rparr>))
       (\<lambda>w. if skipFlag a \<and> stn a < stnToSkipTo a then
               Inr (SKIPPED, (if dbBathyFlag a then fscanf_dbBathy_dummy else id) (realign w))
             else andThen (read_station_body pf a w) (\<lambda>w'. Inr (SUCCESSFUL, realign w')))"

section \<open>Notions used to state the properties\<close>

text \<open>
  The index of the secondary-header entry that carries the bottom depth: the last entry
  with code 10, if there is one.
\<close>

definition hdr_code10 :: "platform \<Rightarrow> OCLStationType \<Rightarrow> nat option" where
  "hdr_code10 pf s =
     (case filter (\<lambda>j. load_long pf s (SecHdrCode j) = 10) [0..<nat (numberOfSecHdrEntries s)] of
        [] \<Rightarrow> None
      | j # js \<Rightarrow> Some (last (j # js)))"

definition with_choice :: "double_ptr \<Rightarrow> char \<Rightarrow> OCLStationType \<Rightarrow> OCLStationType" where
  "with_choice p c s = s\<lparr>bottomDepthPtr := p, bottomDepthSource := c\<rparr>"

text \<open>
  Relations between the state before and after a piece of the decoder.
  \<open>establishes R f\<close>: every run of \<open>f\<close> that returns relates its two states by \<open>R\<close>.
  \<open>acct\<close>: the piece consumed a prefix of the input, left the declared byte count
  alone and, if all fields so far were regular, lowered the budget by exactly the
  content bytes it consumed. \<open>kept\<close>: the bottom-depth choice, the level and variable
  counts, the station type, the bathymetry file and \<^verbatim>\<open>stderr\<close> are unchanged.
\<close>

definition establishes :: "('s \<Rightarrow> 's \<Rightarrow> bool) \<Rightarrow> ('s \<Rightarrow> fault + 's) \<Rightarrow> bool" where
  "establishes R f = (\<forall>w w'. f w = Inr w' \<longrightarrow> R w w')"

definition preorder_on_runs :: "('s \<Rightarrow> 's \<Rightarrow> bool) \<Rightarrow> bool" where
  "preorder_on_runs R = ((\<forall>w. R w w) \<and> (\<forall>a b c. R a b \<longrightarrow> R b c \<longrightarrow> R a c))"

definition acct :: "world \<Rightarrow> world \<Rightarrow> bool" where
  "acct w w' =
     ((\<exists>c. fp_in w = c @ fp_in w' \<and>
           (regular w' \<longrightarrow> regular w \<and>
              int (content c) = bytesLeftInStation (stnData w) - bytesLeftInStation (stnData w'))) \<and>
      bytesInStation (stnData w') = bytesInStation (stnData w))"

definition kept :: "world \<Rightarrow> world \<Rightarrow> bool" where
  "kept w w' =
     (bottomDepthPtr (stnData w') = bottomDepthPtr (stnData w) \<and>
      bottomDepthSource (stnData w') = bottomDepthSource (stnData w) \<and>
      numberOfLevels (stnData w') = numberOfLevels (stnData w) \<and>
      numberOfVarCodes (stnData w') = numberOfVarCodes (stnData w) \<and>
      stationType (stnData w') = stationType (stnData w) \<and>
      databaseBathyValue w' = databaseBathyValue w \<and> fp_dbBathy w' = fp_dbBathy w \<and>
      stderr w' = stderr w)"

text \<open>Destinations whose store cannot change the declared byte count or a loop bound.\<close>

definition counts_kept :: "long_dest \<Rightarrow> bool" where
  "counts_kept dest = (dest \<notin> {BytesInStation, NumberOfLevels, NumberOfVarCodes, StationType})"

text \<open>The decoded depths are unchanged at every index that satisfies \<open>P\<close>.\<close>

definition depth_same_on :: "(nat \<Rightarrow> bool) \<Rightarrow> world \<Rightarrow> world \<Rightarrow> bool" where
  "depth_same_on P w w' = (\<forall>j. P j \<longrightarrow> depthValue (stnData w') j = depthValue (stnData w) j)"

text \<open>
  The bottom-depth choices that pass 1 can leave: none, a secondary-header value, or
  the database value. The profile of a station is read when the caller wants it or no
  bottom depth was found before it (then, with at least one level, the source ends as
  \<open>p\<close>), and every filter flag passes; the flags are not changed after the decision.
\<close>

definition choice_shape :: "OCLStationType \<Rightarrow> bool" where
  "choice_shape s =
     ((bottomDepthPtr s = NULL \<and> bottomDepthSource s = CHR ''-'') \<or>
      ((\<exists>j. bottomDepthPtr s = InStation (SecHdrValue j)) \<and> bottomDepthSource s = CHR ''h'') \<or>
      (bottomDepthPtr s = DatabaseBathy \<and> bottomDepthSource s = CHR ''d''))"

definition profile_read :: "args \<Rightarrow> OCLStationType \<Rightarrow> bool" where
  "profile_read a s =
     ((wantProfileFlag a \<or> bottomDepthSource s = CHR ''p'') \<and>
      varListChecksOut s \<noteq> 0 \<and> badLatLon s = 0 \<and> latlonInRange s \<noteq> 0 \<and>
      monthInRange s \<noteq> 0 \<and> yearInRange s \<noteq> 0 \<and> enoughProfileLevels s \<noteq> 0)"

text \<open>The structure \<open>s'\<close> differs from \<open>s\<close> at most in the budget and the two first fields.\<close>

definition first_fields_only :: "OCLStationType \<Rightarrow> OCLStationType \<Rightarrow> bool" where
  "first_fields_only s s' =
     (\<exists>b B i. s' = s\<lparr>bytesLeftInStation := b, bytesInStation := B, oclStationNumber := i\<rparr>)"



text \<open>A structure, a state and an argument list to build the worked examples from.\<close>

definition blank_station :: OCLStationType where
  "blank_station =
     \<lparr>bytesLeftInStation = 0, bytesInStation = 0, oclStationNumber = 0, countryCode = 0,
      cruiseNumber = 0, year = 0, month = 0, day = 0, numberOfLevels = 0, stationType = 0,
      numberOfVarCodes = 0, varCode = (\<lambda>j. 0), errCodeForVarCode = (\<lambda>j. 0), bytesInCharPI = 0,
      bytesInSecHdr = 0, numberOfSecHdrEntries = 0, secHdrCode = (\<lambda>j. 0), bytesInBioHdr = 0,
      time = Fin 0, lat = Fin 0, lon = Fin 0, secHdrValue = (\<lambda>j. Fin 0),
      depthValue = (\<lambda>j. Fin 0), varValue = (\<lambda>k j. Fin 0), errCodeForDepthValue = (\<lambda>j. 0),
      errCodeForVarValue = (\<lambda>k j. 0), bottomDepthPtr = NULL, bottomDepthSource = CHR ''-'',
      varListChecksOut = 0, badLatLon = 0, latlonInRange = 0, monthInRange = 0, yearInRange = 0,
      enoughProfileLevels = 0\<rparr>"

definition blank_world :: "string \<Rightarrow> world" where
  "blank_world fp =
     \<lparr>stnData = blank_station, fp_in = fp, fp_dbBathy = [], databaseBathyValue = Fin 0,
      stderr = [], regular = True\<rparr>"

definition no_filters :: args where
  "no_filters =
     \<lparr>stn = 0, wantProfileFlag = True, skipFlag = False, stnToSkipTo = 0, varListFlag = False,
      varList = (\<lambda>j. 0), numVarsOnVarList = 0, minLevelsFlag = False, minLevels = 0,
      latlonRegionFlag = False, latlonRegion = (\<lambda>j. Fin 0), yearRangeFlag = False,
      yearRange = (\<lambda>j. 0), monthRangeFlag = False, monthRange = (\<lambda>j. 0), dbBathyFlag = False,
      zeroLatLonFlag = False, wmoSquare = ''''\<rparr>"

text \<open>
  A station of 76 content bytes with a line feed inside, followed by padding, a line
  feed and the start of the next station: total byte count 76, station number 7,
  country code 31, cruise 5, 15 June 1990, no time, latitude 45.3, longitude 12.34,
  two observed levels, one variable (code 1), no character data, a secondary header
  with bottom depth 500 under code 10, no biological header, the levels (0; 10.5) and
  (50; missing), and three bytes that the decoder does not read. The second text is a
  station that declares eleven variable codes.
\<close>

definition example_station_text :: string where
  "example_station_text =
     ''276'' @ ''17'' @ ''31'' @ ''15'' @ ''1990'' @ [CHR 0x0A] @ ''06'' @ ''15'' @ ''-'' @
     ''331453'' @ ''4421234'' @ ''12'' @ ''0'' @ ''01'' @ ''110'' @ ''0'' @
     ''19'' @ ''11'' @ ''210'' @ ''330500'' @ ''0'' @
     ''11000'' @ ''3311050'' @ ''220500'' @ ''-'' @ ''xyz'' @ ''  '' @ [CHR 0x0A] @ ''NEXT''"

definition overrun_station_text :: string where
  "overrun_station_text =
     ''276'' @ ''17'' @ ''31'' @ ''15'' @ ''1990'' @ ''06'' @ ''15'' @ ''-'' @
     ''331453'' @ ''4421234'' @ ''12'' @ ''0'' @ ''11'' @
     ''110'' @ ''120'' @ ''130'' @ ''140'' @ ''160'' @ ''170'' @ ''180'' @ ''190'' @
     ''2110'' @ ''2170'' @ ''2250'' @ ''0'' @ ''0'' @ ''0''"

text \<open>
  Two more stations without variables. The first declares 6001 observed levels, one more
  than \<^const>\<open>MAX_LEVELS\<close>, has no secondary header, and every level is at depth 5; its
  total byte count 30050 is the 45 bytes of its header and the 6001 levels of 5 bytes.
  The second is the station above, of 71 bytes, without the line feed inside and with the
  depth of its second level missing.
\<close>

definition deep_header_text :: string where
  "deep_header_text =
     ''530050'' @ ''17'' @ ''31'' @ ''15'' @ ''1990'' @ ''06'' @ ''15'' @ ''-'' @
     ''331453'' @ ''4421234'' @ ''46001'' @ ''0'' @ ''00'' @ ''0'' @ ''0'' @ ''0''"

definition deep_station_text :: string where
  "deep_station_text =
     deep_header_text @ concat (replicate 6000 ''11050'') @ ''11050'' @ [CHR 0x0A] @ ''NEXT''"

definition missing_depth_station_text :: string where
  "missing_depth_station_text =
     ''271'' @ ''17'' @ ''31'' @ ''15'' @ ''1990'' @ ''06'' @ ''15'' @ ''-'' @
     ''331453'' @ ''4421234'' @ ''12'' @ ''0'' @ ''01'' @ ''110'' @ ''0'' @
     ''19'' @ ''11'' @ ''210'' @ ''330500'' @ ''0'' @
     ''11000'' @ ''3311050'' @ ''-'' @ ''-'' @ ''xyz'' @ ''  '' @ [CHR 0x0A] @ ''NEXT''"

section \<open>Properties of the field readers\<close>

subsection \<open>The reading loop\<close>

text \<open>
  The loop of getIntDigits stores exactly the content characters of the piece of input
  it consumes, and that piece ends in a content character.
\<close>

lemma loop_reads:
  "\<lbrakk>CHR 0xFF \<notin> set pre; content pre = k; pre \<noteq> [] \<longrightarrow> \<not> is_newline (last pre); length acc + k \<le> 10\<rbrakk>
   \<Longrightarrow> getIntDigits_loop k acc nx (pre @ rest) =
       Inr (acc @ filter (\<lambda>c. \<not> is_newline c) pre, (if pre = [] then nx else last pre), rest)"
proof (induction pre arbitrary: k acc nx)
  case Nil
  then show ?case by (cases rest) (simp_all add: content_def)
next
  case (Cons c p)
  show ?case
  proof (cases "is_newline c")
    case True
    with Cons.prems have "p \<noteq> []" by auto
    with Cons.prems True have k: "k \<noteq> 0"
      by (auto simp: content_def filter_empty_conv dest!: last_in_set)
    from Cons.prems True \<open>p \<noteq> []\<close> have "getIntDigits_loop k acc c (p @ rest) =
       Inr (acc @ filter (\<lambda>c. \<not> is_newline c) p, (if p = [] then c else last p), rest)"
      by (intro Cons.IH) (auto simp: content_def)
    with True k Cons.prems \<open>p \<noteq> []\<close> show ?thesis by auto
  next
    case False
    with Cons.prems have k: "k \<noteq> 0" by (auto simp: content_def)
    from Cons.prems False k have "getIntDigits_loop (k - 1) (acc @ [c]) c (p @ rest) =
       Inr ((acc @ [c]) @ filter (\<lambda>c. \<not> is_newline c) p, (if p = [] then c else last p), rest)"
      by (intro Cons.IH) (auto simp: content_def)
    with False k Cons.prems show ?thesis by (auto simp: content_def)
  qed
qed

lemma loop_consumes:
  "getIntDigits_loop k acc nx fp = Inr (v, nx', rest) \<Longrightarrow>
     \<exists>pre. fp = pre @ rest \<and> content pre = k \<and> v = acc @ filter (\<lambda>c. \<not> is_newline c) pre
        \<and> CHR 0xFF \<notin> set pre \<and> nx' = (if pre = [] then nx else last pre)
        \<and> (pre \<noteq> [] \<longrightarrow> \<not> is_newline (last pre))"
proof (induction k acc nx fp rule: getIntDigits_loop.induct)
  case (1 k valueStr nextch)
  then show ?case by (auto simp: content_def split: if_splits)
next
  case (2 k valueStr nextch c cs)
  show ?case
  proof (cases "k = 0")
    case True
    with 2 show ?thesis by (auto simp: content_def)
  next
    case False
    note k = this
    from 2(3) k have c: "c \<noteq> CHR 0xFF" by (auto split: if_splits)
    show ?thesis
    proof (cases "is_newline c")
      case True
      with 2(3) k c have "getIntDigits_loop k valueStr c cs = Inr (v, nx', rest)" by simp
      from 2(1)[OF k c True this] obtain pre where
        "cs = pre @ rest" "content pre = k" "v = valueStr @ filter (\<lambda>c. \<not> is_newline c) pre"
        "CHR 0xFF \<notin> set pre" "nx' = (if pre = [] then c else last pre)"
        "pre \<noteq> [] \<longrightarrow> \<not> is_newline (last pre)" by blast
      moreover from this k have "pre \<noteq> []" by (auto simp: content_def)
      ultimately show ?thesis using True c
        by (intro exI[of _ "c # pre"]) (auto simp: content_def)
    next
      case False
      with 2(3) k c have len: "\<not> 10 \<le> length valueStr"
        and r: "getIntDigits_loop (k - 1) (valueStr @ [c]) c cs = Inr (v, nx', rest)"
        by (auto split: if_splits)
      from 2(2)[OF k c False len r] obtain pre where
        "cs = pre @ rest" "content pre = k - 1" "v = (valueStr @ [c]) @ filter (\<lambda>c. \<not> is_newline c) pre"
        "CHR 0xFF \<notin> set pre" "nx' = (if pre = [] then c else last pre)"
        "pre \<noteq> [] \<longrightarrow> \<not> is_newline (last pre)" by blast
      then show ?thesis using False c k
        by (intro exI[of _ "c # pre"]) (auto simp: content_def)
    qed
  qed
qed

lemma isdigit_facts:
  "isdigit c \<Longrightarrow> \<not> is_newline c \<and> c \<noteq> CHR 0xFF \<and> c \<noteq> CHR 0x00 \<and> \<not> isspace c
     \<and> c \<noteq> CHR ''-'' \<and> c \<noteq> CHR ''+''"
  by (auto simp: isdigit_def is_newline_def isspace_def)

lemma sscanf_ld_digits:
  assumes "list_all isdigit ds" "ds \<noteq> []"
  shows "sscanf_ld ds = Some (digits_value ds)"
proof -
  from assms obtain d ds' where ds: "ds = d # ds'" by (cases ds) auto
  from assms have 1: "takeWhile (\<lambda>c. c \<noteq> CHR 0x00) ds = ds"
    by (auto simp: takeWhile_eq_all_conv list_all_iff dest: isdigit_facts)
  from assms ds have 2: "dropWhile isspace ds = ds"
    by (auto dest: isdigit_facts)
  from assms have 3: "takeWhile isdigit ds = ds"
    by (auto simp: takeWhile_eq_all_conv list_all_iff)
  from assms ds have 4: "d \<noteq> CHR ''-''" "d \<noteq> CHR ''+''" by (auto dest: isdigit_facts)
  show ?thesis
    unfolding sscanf_ld_def 1 2 using 3 4 assms(2) by (simp add: ds scan_digits_def)
qed

lemma getIntDigits_consumes:
  assumes "getIntDigits pf n fp = Inr (st, w, rest)"
  shows "\<exists>pre. fp = pre @ rest \<and> content pre = nat n"
  using assms unfolding getIntDigits_def
  by (auto split: sum.splits if_splits dest!: loop_consumes)


lemma getIntDigits_nonpos: "n \<le> 0 \<Longrightarrow> getIntDigits pf n fp =
   Inr (if n = 0 then ZERO_LENGTH_FIELD else UNSPECIFIED_PROBLEM, if n = 0 then Some (nan_long pf) else None, fp)"
  by (cases fp) (auto simp: getIntDigits_def)

subsection \<open>The status of getIntDigits\<close>

text \<open>
  Claim C6. getIntDigits called for \<open>n\<close> digits: for \<open>n = 0\<close> it reads nothing and
  returns ZERO_LENGTH_FIELD with the missing-value sentinel. For \<open>0 < n\<close> (at most
  nine, the room of \<^verbatim>\<open>valueStr\<close>) it consumes input up to the \<open>n\<close>-th content
  character \<open>c\<close>, skipping line terminators, and returns SUCCESSFUL with what
  \<^verbatim>\<open>sscanf\<close> parses when \<open>c\<close> is a digit, ZERO_LENGTH_FIELD when \<open>n = 1\<close> and \<open>c\<close> is the
  minus sign, and UNSPECIFIED_PROBLEM for every other \<open>c\<close>. On \<open>n\<close> digits the parsed
  integer is their decimal value.
\<close>

theorem getIntDigits_status:
  "getIntDigits pf 0 fp = Inr (ZERO_LENGTH_FIELD, Some (nan_long pf), fp) \<and>
   (0 < n \<and> n \<le> 9 \<and> content (pre @ [c]) = nat n \<and> \<not> is_newline c \<and> CHR 0xFF \<notin> set (pre @ [c]) \<longrightarrow>
      getIntDigits pf n (pre @ c # rest) =
        Inr (if isdigit c then SUCCESSFUL
             else if n = 1 \<and> c = CHR ''-'' then ZERO_LENGTH_FIELD
             else UNSPECIFIED_PROBLEM,
             if isdigit c then sscanf_ld (filter (\<lambda>c. \<not> is_newline c) (pre @ [c]))
             else if n = 1 \<and> c = CHR ''-'' then Some (nan_long pf)
             else None,
             rest)) \<and>
   (list_all isdigit ds \<and> ds \<noteq> [] \<and> length ds \<le> 9 \<longrightarrow>
      getIntDigits pf (int (length ds)) (ds @ rest) = Inr (SUCCESSFUL, Some (digits_value ds), rest))"
proof (intro conjI impI)
  show "getIntDigits pf 0 fp = Inr (ZERO_LENGTH_FIELD, Some (nan_long pf), fp)"
    by (simp add: getIntDigits_nonpos)
next
  assume a: "0 < n \<and> n \<le> 9 \<and> content (pre @ [c]) = nat n \<and> \<not> is_newline c \<and> CHR 0xFF \<notin> set (pre @ [c])"
  then have "getIntDigits_loop (nat n) [] (CHR 0x00) ((pre @ [c]) @ rest) =
       Inr ([] @ filter (\<lambda>c. \<not> is_newline c) (pre @ [c]), (if pre @ [c] = [] then CHR 0x00 else last (pre @ [c])), rest)"
    by (intro loop_reads) auto
  moreover from a have "length (filter (\<lambda>c. \<not> is_newline c) (pre @ [c])) = nat n"
    by (auto simp: content_def)
  ultimately show "getIntDigits pf n (pre @ c # rest) =
        Inr (if isdigit c then SUCCESSFUL
             else if n = 1 \<and> c = CHR ''-'' then ZERO_LENGTH_FIELD
             else UNSPECIFIED_PROBLEM,
             if isdigit c then sscanf_ld (filter (\<lambda>c. \<not> is_newline c) (pre @ [c]))
             else if n = 1 \<and> c = CHR ''-'' then Some (nan_long pf)
             else None,
             rest)"
    using a by (auto simp: getIntDigits_def)
next
  assume a: "list_all isdigit ds \<and> ds \<noteq> [] \<and> length ds \<le> 9"
  show "getIntDigits pf (int (length ds)) (ds @ rest) = Inr (SUCCESSFUL, Some (digits_value ds), rest)"
  proof -
    from a have nd: "\<forall>c\<in>set ds. \<not> is_newline c \<and> c \<noteq> CHR 0xFF \<and> c \<noteq> CHR 0x00"
      by (auto simp: list_all_iff dest: isdigit_facts)
    from a obtain d ds' where ds: "ds = ds' @ [d]" by (cases ds rule: rev_cases) auto
    from nd have f: "filter (\<lambda>c. \<not> is_newline c) ds = ds" by (auto simp: filter_id_conv)
    have "getIntDigits_loop (nat (int (length ds))) [] (CHR 0x00) (ds @ rest) =
       Inr ([] @ filter (\<lambda>c. \<not> is_newline c) ds, (if ds = [] then CHR 0x00 else last ds), rest)"
      using nd a f by (intro loop_reads) (auto simp: content_def)
    moreover from a ds have "isdigit (last ds)" by (auto simp: list_all_iff)
    ultimately show ?thesis using a f
      by (auto simp: getIntDigits_def sscanf_ld_digits)
  qed
qed

theorem getIntDigits_status_witness:
  "getIntDigits example_platform 1 ''-xyz'' = Inr (ZERO_LENGTH_FIELD, Some (- 9223372036854775808), ''xyz'') \<and>
   getIntDigits example_platform 3 ([CHR ''1'', CHR 0x0A, CHR ''2'', CHR ''3''] @ ''xyz'') = Inr (SUCCESSFUL, Some 123, ''xyz'') \<and>
   getIntDigits example_platform 2 ''4 xyz'' = Inr (UNSPECIFIED_PROBLEM, None, ''xyz'')"
  using getIntDigits_status [of example_platform "[]" 1 "[]" "CHR ''-''" "''xyz''" "[]"]
    getIntDigits_status [of example_platform "[]" 3 "[CHR ''1'', CHR 0x0A, CHR ''2'']" "CHR ''3''" "''xyz''" "[]"]
    getIntDigits_status [of example_platform "[]" 2 "''4''" "CHR '' ''" "''xyz''" "[]"]
  by (simp add: content_def is_newline_def isdigit_def isspace_def digit_val_def sscanf_ld_def scan_digits_def digits_value_def example_platform_def)

subsection \<open>The budget rule of getVarlenIntField\<close>

text \<open>
  Claim C7. getVarlenIntField reads the one-digit length \<open>L\<close> and takes 1 from the
  budget. When the inner read of \<open>L\<close> digits returns ZERO_LENGTH_FIELD it stores the
  missing-value sentinel and returns ZERO_LENGTH_FIELD with the budget as it is.
  Otherwise it returns SUCCESSFUL; a budget that is negative (not yet set) becomes
  \<open>value - L - 1\<close>, and a budget that is set goes down by \<open>L\<close>.
\<close>

theorem getVarlenIntField_budget:
  assumes "getIntDigits pf 1 fp = Inr (status, w1, fp1)"
    and "getIntDigits pf (long_to_int (stored (junk_long pf) w1)) fp1 = Inr (status2, w2, fp2)"
  shows "getVarlenIntField pf old bytesLeft fp =
           Inr (if status2 = ZERO_LENGTH_FIELD then
                  (ZERO_LENGTH_FIELD, Some (nan_long pf), bytesLeft - 1, fp2)
                else
                  (SUCCESSFUL, w2,
                   if bytesLeft - 1 < 0 then stored old w2 - stored (junk_long pf) w1 - 1
                   else bytesLeft - 1 - stored (junk_long pf) w1,
                   fp2))"
  using assms by (simp add: getVarlenIntField_def Let_def)

theorem getVarlenIntField_budget_witness:
  "getVarlenIntField example_platform 0 (- 1) ''3123xyz'' = Inr (SUCCESSFUL, Some 123, 119, ''xyz'') \<and>
   getVarlenIntField example_platform 0 50 ''3123xyz'' = Inr (SUCCESSFUL, Some 123, 46, ''xyz'') \<and>
   getVarlenIntField example_platform 0 50 ''0123xyz'' = Inr (ZERO_LENGTH_FIELD, Some (- 9223372036854775808), 49, ''123xyz'')"
  using getVarlenIntField_budget [of example_platform "''3123xyz''" SUCCESSFUL "Some 3" "''123xyz''" SUCCESSFUL "Some 123" "''xyz''" 0 "- 1"]
    getVarlenIntField_budget [of example_platform "''3123xyz''" SUCCESSFUL "Some 3" "''123xyz''" SUCCESSFUL "Some 123" "''xyz''" 0 50]
    getVarlenIntField_budget [of example_platform "''0123xyz''" SUCCESSFUL "Some 0" "''123xyz''" ZERO_LENGTH_FIELD "Some (- 9223372036854775808)" "''123xyz''" 0 50]
  by (simp add: getIntDigits_def is_newline_def isdigit_def isspace_def digit_val_def sscanf_ld_def scan_digits_def digits_value_def stored_def long_to_int_def example_platform_def)

subsection \<open>The status of getVarlenFloatField\<close>

text \<open>
  Claim C10. When the first control of getVarlenFloatField (significant digits) reads
  as a digit, every return of the function has status SUCCESSFUL; and the function
  does return, with SUCCESSFUL, whenever the three further reads return, whatever
  their statuses are (they are overwritten).
\<close>

theorem getVarlenFloatField_status:
  assumes "getIntDigits pf 1 fp = Inr (SUCCESSFUL, wsig, fp1)"
  shows "(\<forall>st v b rest. getVarlenFloatField pf bytesLeft fp = Inr (st, v, b, rest) \<longrightarrow> st = SUCCESSFUL) \<and>
         (\<forall>status2 wtot fp2 status3 wprec fp3 status4 wint fp4.
            getIntDigits pf 1 fp1 = Inr (status2, wtot, fp2) \<and>
            getIntDigits pf 1 fp2 = Inr (status3, wprec, fp3) \<and>
            getIntDigits pf (long_to_int (stored (junk_long pf) wtot)) fp3 = Inr (status4, wint, fp4) \<longrightarrow>
            getVarlenFloatField pf bytesLeft fp =
              Inr (SUCCESSFUL,
                   Some (scaled (stored (junk_long pf) wint) (stored (junk_long pf) wprec)),
                   bytesLeft - 1 - 1 - 1 - stored (junk_long pf) wtot, fp4))"
  using assms by (auto simp: getVarlenFloatField_def Let_def split: sum.splits)

theorem getVarlenFloatField_status_witness:
  "getVarlenFloatField example_platform 50 ''10qyz'' =
     Inr (SUCCESSFUL, Some (Fin (- 9223372036854775808 / 100)), 47, ''yz'') \<and>
   getVarlenFloatField example_platform 50 ''12x4yz'' = Inr (SUCCESSFUL, Some (Fin (2 / 100)), 45, ''z'')"
  using getVarlenFloatField_status [of example_platform "''10qyz''" "Some 1" "''0qyz''" 50,
      THEN conjunct2, rule_format, of SUCCESSFUL "Some 0" "''qyz''"
        UNSPECIFIED_PROBLEM None "''yz''" ZERO_LENGTH_FIELD "Some (- 9223372036854775808)" "''yz''"]
    getVarlenFloatField_status [of example_platform "''12x4yz''" "Some 1" "''2x4yz''" 50,
      THEN conjunct2, rule_format, of SUCCESSFUL "Some 2" "''x4yz''"
        UNSPECIFIED_PROBLEM None "''4yz''" UNSPECIFIED_PROBLEM None "''z''"]
  by (simp add: getIntDigits_def is_newline_def isdigit_def isspace_def digit_val_def sscanf_ld_def scan_digits_def digits_value_def stored_def long_to_int_def example_platform_def scaled_def)

section \<open>Properties of the variable-coverage check\<close>

text \<open>
  Claim C4. The check is to pass exactly when every requested code is among the
  station's declared codes and none of the matching codes has an error code. The
  function counts matches instead: with the requested codes 1 and 2 and a station
  that declares code 1 twice, both without error, two matches are counted and the
  check passes although code 2 is not declared.
\<close>

theorem checkVars_duplicate_declared:
  "checkVarsInclAndNoErrors ((!) [1, 2]) ((!) [1, 1]) ((!) [0, 0]) 2 2 = 1 \<and>
   [1, 2] ! 1 \<notin> set [1, 1 :: int]"
  by (simp add: checkVarsInclAndNoErrors_def checkVars_counts_def upt_rec)

section \<open>What the field readers consume\<close>

lemma content_append [simp]: "content (xs @ ys) = content xs + content ys"
  by (simp add: content_def)

lemma content_Nil [simp]: "content [] = 0"
  by (simp add: content_def)

lemma digit_val_range: "isdigit c \<Longrightarrow> 0 \<le> digit_val c \<and> digit_val c \<le> 9"
  by (auto simp: isdigit_def digit_val_def)

lemma getIntDigits_one_digit:
  assumes "getIntDigits pf 1 fp = Inr (SUCCESSFUL, Some L, fp1)"
  shows "0 \<le> L \<and> L \<le> 9"
proof -
  from assms obtain v nx where l: "getIntDigits_loop 1 [] (CHR 0x00) fp = Inr (v, nx, fp1)"
    and d: "isdigit nx" and s: "sscanf_ld v = Some L"
    by (auto simp: getIntDigits_def split: sum.splits if_splits)
  from loop_consumes[OF l] obtain pre where pre: "content pre = 1"
    "v = filter (\<lambda>c. \<not> is_newline c) pre" "nx = (if pre = [] then CHR 0x00 else last pre)"
    "pre \<noteq> [] \<longrightarrow> \<not> is_newline (last pre)" by auto
  from pre(1) have ne: "pre \<noteq> []" by auto
  with pre have "last pre \<in> set v" by auto
  moreover from pre(1,2) have "length v = 1" by (simp add: content_def)
  ultimately have v: "v = [nx]" using pre(3) ne by (cases v) auto
  from d have "list_all isdigit [nx]" by simp
  then have "sscanf_ld [nx] = Some (digits_value [nx])" by (rule sscanf_ld_digits) simp
  with s v have "L = digit_val nx" by (simp add: digits_value_def)
  with d show ?thesis by (simp add: digit_val_range)
qed

lemma long_to_int_small: "0 \<le> L \<Longrightarrow> L \<le> 9 \<Longrightarrow> long_to_int L = L"
  by (simp add: long_to_int_def)

lemma getVarlenIntField_consumes:
  assumes "getVarlenIntField pf old b fp = Inr (st, wr, b', rest)"
  shows "\<exists>c. fp = c @ rest \<and>
           (regular_varlenInt pf dest b fp \<longrightarrow>
              (if b = - 1 \<and> dest = BytesInStation
               then st \<noteq> ZERO_LENGTH_FIELD \<and> int (content c) + b' = stored old wr
               else int (content c) = b - b'))"
proof -
  from assms obtain s1 w1 fp1 s2 w2 where
    g1: "getIntDigits pf 1 fp = Inr (s1, w1, fp1)" and
    g2: "getIntDigits pf (long_to_int (stored (junk_long pf) w1)) fp1 = Inr (s2, w2, rest)"
    by (auto simp: getVarlenIntField_def Let_def split: sum.splits if_splits)
  from getIntDigits_consumes[OF g1] obtain c1 where c1: "fp = c1 @ fp1" "content c1 = 1" by auto
  from getIntDigits_consumes[OF g2] obtain c2 where
    c2: "fp1 = c2 @ rest" "content c2 = nat (long_to_int (stored (junk_long pf) w1))" by auto
  have "regular_varlenInt pf dest b fp \<longrightarrow>
              (if b = - 1 \<and> dest = BytesInStation
               then st \<noteq> ZERO_LENGTH_FIELD \<and> int (content (c1 @ c2)) + b' = stored old wr
               else int (content (c1 @ c2)) = b - b')"
  proof
    assume r: "regular_varlenInt pf dest b fp"
    with g1 obtain L where L: "s1 = SUCCESSFUL" "w1 = Some L"
      by (auto simp: regular_varlenInt_def)
    with g1 have rng: "0 \<le> L \<and> L \<le> 9" by (auto dest: getIntDigits_one_digit)
    then have li: "long_to_int L = L" by (simp add: long_to_int_small)
    from r g1 g2 L li have cond: "if s2 = ZERO_LENGTH_FIELD then L = 0 \<and> 0 < b
               else (b = - 1 \<and> dest = BytesInStation) \<or> 0 < b"
      by (auto simp: regular_varlenInt_def stored_def split: if_splits)
    from c2 L li rng have cc: "int (content c2) = L" by (simp add: stored_def)
    from assms g1 g2 L li have res: "(st, wr, b', rest) =
       (if s2 = ZERO_LENGTH_FIELD then (ZERO_LENGTH_FIELD, Some (nan_long pf), b - 1, rest)
        else (SUCCESSFUL, w2, if b - 1 < 0 then stored old w2 - L - 1 else b - 1 - L, rest))"
      by (auto simp: getVarlenIntField_def Let_def stored_def split: if_splits)
    show "if b = - 1 \<and> dest = BytesInStation
               then st \<noteq> ZERO_LENGTH_FIELD \<and> int (content (c1 @ c2)) + b' = stored old wr
               else int (content (c1 @ c2)) = b - b'"
      using cond res cc c1(2) by (auto split: if_splits)
  qed
  with c1 c2 show ?thesis by (intro exI[of _ "c1 @ c2"]) simp
qed

lemma getVarlenFloatField_consumes:
  assumes "getVarlenFloatField pf b fp = Inr (st, wr, b', rest)"
  shows "\<exists>c. fp = c @ rest \<and> (regular_varlenFloat pf fp \<longrightarrow> int (content c) = b - b')"
proof -
  from assms obtain s1 w1 fp1 where g1: "getIntDigits pf 1 fp = Inr (s1, w1, fp1)"
    by (auto simp: getVarlenFloatField_def split: sum.splits)
  from getIntDigits_consumes[OF g1] obtain c1 where c1: "fp = c1 @ fp1" "content c1 = 1" by auto
  show ?thesis
  proof (cases "s1 = SUCCESSFUL")
    case False
    with assms g1 have "rest = fp1" "b' = b - 1"
      by (auto simp: getVarlenFloatField_def split: if_splits)
    with c1 show ?thesis by (intro exI[of _ c1]) simp
  next
    case True
    with assms g1 obtain s2 wtot fp2 s3 wprec fp3 s4 wint where
      g2: "getIntDigits pf 1 fp1 = Inr (s2, wtot, fp2)" and
      g3: "getIntDigits pf 1 fp2 = Inr (s3, wprec, fp3)" and
      g4: "getIntDigits pf (long_to_int (stored (junk_long pf) wtot)) fp3 = Inr (s4, wint, rest)" and
      b': "b' = b - 1 - 1 - 1 - stored (junk_long pf) wtot"
      by (auto simp: getVarlenFloatField_def Let_def split: sum.splits)
    from getIntDigits_consumes[OF g2] obtain c2 where c2: "fp1 = c2 @ fp2" "content c2 = 1" by auto
    from getIntDigits_consumes[OF g3] obtain c3 where c3: "fp2 = c3 @ fp3" "content c3 = 1" by auto
    from getIntDigits_consumes[OF g4] obtain c4 where c4: "fp3 = c4 @ rest"
      "content c4 = nat (long_to_int (stored (junk_long pf) wtot))" by auto
    have "regular_varlenFloat pf fp \<longrightarrow> int (content (c1 @ c2 @ c3 @ c4)) = b - b'"
    proof
      assume "regular_varlenFloat pf fp"
      with g1 g2 True obtain D where D: "s2 = SUCCESSFUL" "wtot = Some D"
        by (auto simp: regular_varlenFloat_def)
      with g2 have rng: "0 \<le> D \<and> D \<le> 9" by (auto dest: getIntDigits_one_digit)
      with c4 D have "int (content c4) = D" by (simp add: stored_def long_to_int_small)
      with c1 c2 c3 b' D show "int (content (c1 @ c2 @ c3 @ c4)) = b - b'"
        by (simp add: stored_def)
    qed
    with c1 c2 c3 c4 show ?thesis by (intro exI[of _ "c1 @ c2 @ c3 @ c4"]) simp
  qed
qed

lemma skip_loop_consumes:
  "k \<le> content fp \<Longrightarrow> \<exists>c. fp = c @ skip_loop k fp \<and> content c = k"
proof (induction k fp rule: skip_loop.induct)
  case (1 k)
  then show ?case by simp
next
  case (2 k c cs)
  show ?case
  proof (cases "k = 0")
    case True
    then show ?thesis by simp
  next
    case False
    show ?thesis
    proof (cases "is_newline c")
      case True
      with 2(3) have "k \<le> content cs" by (simp add: content_def)
      from 2(1)[OF False True this] obtain c' where "cs = c' @ skip_loop k cs" "content c' = k" by auto
      with True False show ?thesis
        by (intro exI[of _ "c # c'"]) (simp add: content_def)
    next
      case nn: False
      with 2(3) have "k - 1 \<le> content cs" by (simp add: content_def)
      from 2(2)[OF False nn this] obtain c' where "cs = c' @ skip_loop (k - 1) cs" "content c' = k - 1" by auto
      with nn False show ?thesis
        by (intro exI[of _ "c # c'"]) (simp add: content_def)
    qed
  qed
qed

lemma fgets_line_prefix: "fp = fgets_line n fp @ fgets_rest n fp"
proof -
  have "take (length (fgets_line n fp)) fp = fgets_line n fp"
    by (induction n fp rule: fgets_line.induct) auto
  then show ?thesis unfolding fgets_rest_def by (metis append_take_drop_id)
qed

section \<open>Bottom depth before the profile\<close>

lemma load_long_with_choice [simp]: "load_long pf (with_choice p c s) dest = load_long pf s dest"
  by (cases dest) (simp_all add: with_choice_def)

lemma with_choice_twice [simp]: "with_choice p c (with_choice p' c' s) = with_choice p c s"
  by (simp add: with_choice_def)

lemma assign_hdr_fold:
  assumes F: "\<And>j t. F j t = (if load_long pf t (SecHdrCode j) = 10
                then with_choice (InStation (SecHdrValue j)) (CHR ''h'') t else t)"
  shows "fold F [0..<n] (with_choice NULL (CHR ''-'') s) =
   (case filter (\<lambda>j. load_long pf s (SecHdrCode j) = 10) [0..<n] of
      [] \<Rightarrow> with_choice NULL (CHR ''-'') s
    | j # js \<Rightarrow> with_choice (InStation (SecHdrValue (last (j # js)))) (CHR ''h'') s)"
proof (induction n)
  case 0
  then show ?case by simp
next
  case (Suc n)
  then show ?case
    by (cases "filter (\<lambda>j. load_long pf s (SecHdrCode j) = 10) [0..<n]")
       (auto simp: F simp del: load_long.simps split: list.splits)
qed

lemma assign_hdr_eq:
  "assign_hdr_bottomDepth pf s =
     (case hdr_code10 pf s of
        None \<Rightarrow> with_choice NULL (CHR ''-'') s
      | Some j \<Rightarrow> with_choice (InStation (SecHdrValue j)) (CHR ''h'') s)"
proof -
  have "assign_hdr_bottomDepth pf s =
     fold (\<lambda>j s. if load_long pf s (SecHdrCode j) = 10
                then s\<lparr>bottomDepthPtr := InStation (SecHdrValue j), bottomDepthSource := CHR ''h''\<rparr>
                else s) [0..<nat (numberOfSecHdrEntries s)] (with_choice NULL (CHR ''-'') s)"
    by (simp add: assign_hdr_bottomDepth_def with_choice_def del: load_long.simps)
  also have "\<dots> = (case filter (\<lambda>j. load_long pf s (SecHdrCode j) = 10) [0..<nat (numberOfSecHdrEntries s)] of
      [] \<Rightarrow> with_choice NULL (CHR ''-'') s
    | j # js \<Rightarrow> with_choice (InStation (SecHdrValue (last (j # js)))) (CHR ''h'') s)"
    by (rule assign_hdr_fold) (simp add: with_choice_def del: load_long.simps)
  finally show ?thesis
    unfolding hdr_code10_def by (simp split: list.splits del: load_long.simps)
qed

lemma load_double_choice [simp]:
  "load_double pf (s\<lparr>bottomDepthPtr := p, bottomDepthSource := c\<rparr>) a = load_double pf s a"
  by (cases a) simp_all






section \<open>Frames and byte accounting of the decoding steps\<close>

subsection \<open>Stores\<close>

lemma andThen_Inr_iff: "(andThen m f = Inr y) = (\<exists>x. m = Inr x \<and> f x = Inr y)"
  by (cases m) (simp_all add: andThen_def)

lemma andThen_Inr [simp]: "andThen (Inr x) f = f x"
  by (simp add: andThen_def)

lemma andThen_Inl [simp]: "andThen (Inl e) f = Inl e"
  by (simp add: andThen_def)

lemma store_long_frame:
  assumes "store_long dest v s = Inr s'"
  shows "bytesLeftInStation s' = bytesLeftInStation s \<and> bottomDepthPtr s' = bottomDepthPtr s \<and>
         bottomDepthSource s' = bottomDepthSource s \<and>
         (dest \<noteq> BytesInStation \<longrightarrow> bytesInStation s' = bytesInStation s) \<and>
         (dest \<noteq> NumberOfLevels \<longrightarrow> numberOfLevels s' = numberOfLevels s) \<and>
         (dest \<noteq> NumberOfVarCodes \<longrightarrow> numberOfVarCodes s' = numberOfVarCodes s) \<and>
         (dest \<noteq> StationType \<longrightarrow> stationType s' = stationType s) \<and>
         depthValue s' = depthValue s"
  using assms by (cases dest) (auto split: if_splits)

lemma store_double_frame:
  assumes "store_double dest v s = Inr s'"
  shows "bytesLeftInStation s' = bytesLeftInStation s \<and> bottomDepthPtr s' = bottomDepthPtr s \<and>
         bottomDepthSource s' = bottomDepthSource s \<and> bytesInStation s' = bytesInStation s \<and>
         numberOfLevels s' = numberOfLevels s \<and> numberOfVarCodes s' = numberOfVarCodes s \<and>
         stationType s' = stationType s"
  using assms by (cases dest) (auto split: if_splits)

lemma store_opt_long_frame:
  assumes "store_opt_long dest wr s = Inr s'"
  shows "bytesLeftInStation s' = bytesLeftInStation s \<and> bottomDepthPtr s' = bottomDepthPtr s \<and>
         bottomDepthSource s' = bottomDepthSource s \<and>
         (dest \<noteq> BytesInStation \<longrightarrow> bytesInStation s' = bytesInStation s) \<and>
         (dest \<noteq> NumberOfLevels \<longrightarrow> numberOfLevels s' = numberOfLevels s) \<and>
         (dest \<noteq> NumberOfVarCodes \<longrightarrow> numberOfVarCodes s' = numberOfVarCodes s) \<and>
         (dest \<noteq> StationType \<longrightarrow> stationType s' = stationType s) \<and>
         depthValue s' = depthValue s"
  using assms store_long_frame[of dest _ s s']
  by (cases wr) (auto simp: store_opt_long_def)

lemma store_opt_double_frame:
  assumes "store_opt_double dest wr s = Inr s'"
  shows "bytesLeftInStation s' = bytesLeftInStation s \<and> bottomDepthPtr s' = bottomDepthPtr s \<and>
         bottomDepthSource s' = bottomDepthSource s \<and> bytesInStation s' = bytesInStation s \<and>
         numberOfLevels s' = numberOfLevels s \<and> numberOfVarCodes s' = numberOfVarCodes s \<and>
         stationType s' = stationType s"
  using assms store_double_frame[of dest _ s s']
  by (cases wr) (auto simp: store_opt_double_def)

subsection \<open>Effects of the calls\<close>

lemma call_getIntDigits_effect:
  assumes "call_getIntDigits pf n dest w = Inr (st, w')"
  shows "\<exists>wr rest s'. getIntDigits pf n (fp_in w) = Inr (st, wr, rest) \<and>
           store_opt_long dest wr (stnData w) = Inr s' \<and> w' = w\<lparr>stnData := s', fp_in := rest\<rparr>"
  using assms unfolding call_getIntDigits_def
  by (auto simp: andThen_Inr_iff)

lemma call_getVarlenIntField_effect:
  assumes "call_getVarlenIntField pf dest w = Inr (st, w')"
  shows "\<exists>wr b rest s'.
           getVarlenIntField pf (load_long pf (stnData w) dest) (bytesLeftInStation (stnData w)) (fp_in w)
             = Inr (st, wr, b, rest) \<and>
           store_opt_long dest wr (stnData w) = Inr s' \<and>
           w' = w\<lparr>stnData := s'\<lparr>bytesLeftInStation := b\<rparr>, fp_in := rest,
                  regular := (regular w \<and> regular_varlenInt pf dest (bytesLeftInStation (stnData w)) (fp_in w))\<rparr>"
  using assms unfolding call_getVarlenIntField_def
  by (auto simp: andThen_Inr_iff simp del: load_long.simps)

lemma call_getVarlenFloatField_effect:
  assumes "call_getVarlenFloatField pf dest w = Inr (st, w')"
  shows "\<exists>wr b rest s'.
           getVarlenFloatField pf (bytesLeftInStation (stnData w)) (fp_in w) = Inr (st, wr, b, rest) \<and>
           store_opt_double dest wr (stnData w) = Inr s' \<and>
           w' = w\<lparr>stnData := s'\<lparr>bytesLeftInStation := b\<rparr>, fp_in := rest,
                  regular := (regular w \<and> regular_varlenFloat pf (fp_in w))\<rparr>"
  using assms unfolding call_getVarlenFloatField_def
  by (auto simp: andThen_Inr_iff)

lemma assign_default_effect:
  assumes "assign_default dest dflt st w = Inr w'"
  shows "w' = w \<or> (\<exists>v s'. store_long dest v (stnData w) = Inr s' \<and> w' = w\<lparr>stnData := s'\<rparr>)"
  using assms unfolding assign_default_def
  by (auto simp: andThen_Inr_iff split: option.splits if_splits)

subsection \<open>Composition\<close>

lemma establishesI: "(\<And>w w'. f w = Inr w' \<Longrightarrow> R w w') \<Longrightarrow> establishes R f"
  by (simp add: establishes_def)

lemma establishesD: "establishes R f \<Longrightarrow> f w = Inr w' \<Longrightarrow> R w w'"
  by (simp add: establishes_def)

lemma establishes_seq:
  assumes "preorder_on_runs R" and "\<And>f. f \<in> set fs \<Longrightarrow> establishes R f"
  shows "establishes R (seq fs)"
  using assms(2)
proof (induction fs)
  case Nil
  with assms(1) show ?case by (simp add: establishes_def preorder_on_runs_def)
next
  case (Cons f fs)
  then have f: "establishes R f" and fs: "establishes R (seq fs)" by simp_all
  show ?case
  proof (rule establishesI)
    fix w w' assume "seq (f # fs) w = Inr w'"
    then obtain w1 where "f w = Inr w1" "seq fs w1 = Inr w'" by (auto simp: andThen_Inr_iff)
    with f fs have "R w w1" "R w1 w'" by (auto dest: establishesD)
    with assms(1) show "R w w'" unfolding preorder_on_runs_def by blast
  qed
qed

lemma establishes_for_upto:
  assumes "preorder_on_runs R" and "\<And>j. establishes R (body j)"
  shows "establishes R (for_upto n body)"
  unfolding for_upto_def using assms by (intro establishes_seq) auto

lemma establishes_andThen:
  assumes "preorder_on_runs R" and "establishes R f" and "establishes R g"
  shows "establishes R (\<lambda>w. andThen (f w) g)"
proof (rule establishesI)
  fix w w' assume "andThen (f w) g = Inr w'"
  then obtain w1 where "f w = Inr w1" "g w1 = Inr w'" by (auto simp: andThen_Inr_iff)
  with assms(2,3) have "R w w1" "R w1 w'" by (auto dest: establishesD)
  with assms(1) show "R w w'" unfolding preorder_on_runs_def by blast
qed

lemma preorder_acct: "preorder_on_runs acct"
  unfolding preorder_on_runs_def
proof (intro conjI allI impI)
  fix w show "acct w w" by (simp add: acct_def)
next
  fix a b c assume ab: "acct a b" and bc: "acct b c"
  from ab obtain c1 where c1: "fp_in a = c1 @ fp_in b"
    "regular b \<longrightarrow> regular a \<and> int (content c1) = bytesLeftInStation (stnData a) - bytesLeftInStation (stnData b)"
    and B1: "bytesInStation (stnData b) = bytesInStation (stnData a)"
    unfolding acct_def by blast
  from bc obtain c2 where c2: "fp_in b = c2 @ fp_in c"
    "regular c \<longrightarrow> regular b \<and> int (content c2) = bytesLeftInStation (stnData b) - bytesLeftInStation (stnData c)"
    and B2: "bytesInStation (stnData c) = bytesInStation (stnData b)"
    unfolding acct_def by blast
  show "acct a c"
    unfolding acct_def using c1 c2 B1 B2
    by (intro conjI exI[of _ "c1 @ c2"]) auto
qed

lemma preorder_kept: "preorder_on_runs kept"
  by (simp add: preorder_on_runs_def kept_def)

lemma assign_default_frame:
  assumes "assign_default dest dflt st w = Inr w'"
  shows "fp_in w' = fp_in w \<and> regular w' = regular w \<and>
         bytesLeftInStation (stnData w') = bytesLeftInStation (stnData w) \<and>
         (dest \<noteq> BytesInStation \<longrightarrow> bytesInStation (stnData w') = bytesInStation (stnData w)) \<and>
         (counts_kept dest \<longrightarrow> kept w w')"
  using assign_default_effect[OF assms] store_long_frame[of dest _ "stnData w"]
  by (auto simp: kept_def counts_kept_def)

lemma getIntDigits_else_acct:
  assumes "0 \<le> n" "dest \<noteq> BytesInStation"
  shows "establishes acct (getIntDigits_else pf n dest dflt)"
proof (rule establishesI)
  fix w w' assume "getIntDigits_else pf n dest dflt w = Inr w'"
  then obtain st w1 w2 where c: "call_getIntDigits pf n dest w = Inr (st, w1)"
    and d: "assign_default dest dflt st w1 = Inr w2" and w': "w' = dec_bytesLeft n w2"
    unfolding getIntDigits_else_def by (auto simp: andThen_Inr_iff)
  from call_getIntDigits_effect[OF c] obtain wr rest s' where
    g: "getIntDigits pf n (fp_in w) = Inr (st, wr, rest)" and
    s: "store_opt_long dest wr (stnData w) = Inr s'" and w1: "w1 = w\<lparr>stnData := s', fp_in := rest\<rparr>"
    by blast
  from getIntDigits_consumes[OF g] obtain c where cc: "fp_in w = c @ rest" "content c = nat n" by auto
  from store_opt_long_frame[OF s] assms have f1: "bytesLeftInStation s' = bytesLeftInStation (stnData w)"
    "bytesInStation s' = bytesInStation (stnData w)" by auto
  from assign_default_frame[OF d] assms have f2: "fp_in w2 = fp_in w1" "regular w2 = regular w1"
    "bytesLeftInStation (stnData w2) = bytesLeftInStation (stnData w1)"
    "bytesInStation (stnData w2) = bytesInStation (stnData w1)" by auto
  show "acct w w'"
    unfolding acct_def w' using cc f1 f2 w1 assms(1)
    by (intro conjI exI[of _ c]) (auto simp: dec_bytesLeft_def)
qed

lemma getIntDigits_else_kept:
  assumes "counts_kept dest"
  shows "establishes kept (getIntDigits_else pf n dest dflt)"
proof (rule establishesI)
  fix w w' assume "getIntDigits_else pf n dest dflt w = Inr w'"
  then obtain st w1 w2 where c: "call_getIntDigits pf n dest w = Inr (st, w1)"
    and d: "assign_default dest dflt st w1 = Inr w2" and w': "w' = dec_bytesLeft n w2"
    unfolding getIntDigits_else_def by (auto simp: andThen_Inr_iff)
  from call_getIntDigits_effect[OF c] obtain wr rest s' where
    s: "store_opt_long dest wr (stnData w) = Inr s'" and w1: "w1 = w\<lparr>stnData := s', fp_in := rest\<rparr>"
    by blast
  from store_opt_long_frame[OF s] assms w1 have "kept w w1"
    by (auto simp: kept_def counts_kept_def)
  moreover from assign_default_frame[OF d] assms have "kept w1 w2" by simp
  moreover have "kept w2 w'" unfolding w' by (simp add: kept_def dec_bytesLeft_def)
  ultimately show "kept w w'" using preorder_kept unfolding preorder_on_runs_def by blast
qed

lemma call_getVarlenIntField_acct:
  assumes "call_getVarlenIntField pf dest w = Inr (st, w')" "dest \<noteq> BytesInStation"
  shows "acct w w'"
proof -
  from call_getVarlenIntField_effect[OF assms(1)] obtain wr b rest s' where
    g: "getVarlenIntField pf (load_long pf (stnData w) dest) (bytesLeftInStation (stnData w)) (fp_in w)
             = Inr (st, wr, b, rest)" and
    s: "store_opt_long dest wr (stnData w) = Inr s'" and
    w': "w' = w\<lparr>stnData := s'\<lparr>bytesLeftInStation := b\<rparr>, fp_in := rest,
                  regular := (regular w \<and> regular_varlenInt pf dest (bytesLeftInStation (stnData w)) (fp_in w))\<rparr>"
    by blast
  from getVarlenIntField_consumes[OF g, of dest] assms(2) obtain c where
    c: "fp_in w = c @ rest"
    "regular_varlenInt pf dest (bytesLeftInStation (stnData w)) (fp_in w) \<longrightarrow>
       int (content c) = bytesLeftInStation (stnData w) - b" by auto
  from store_opt_long_frame[OF s] assms(2) have "bytesInStation s' = bytesInStation (stnData w)" by simp
  then show ?thesis
    unfolding acct_def w' using c by (intro conjI exI[of _ c]) auto
qed

lemma call_getVarlenIntField_kept:
  assumes "call_getVarlenIntField pf dest w = Inr (st, w')" "counts_kept dest"
  shows "kept w w'"
proof -
  from call_getVarlenIntField_effect[OF assms(1)] obtain wr b rest s' where
    s: "store_opt_long dest wr (stnData w) = Inr s'" and
    w': "w' = w\<lparr>stnData := s'\<lparr>bytesLeftInStation := b\<rparr>, fp_in := rest,
                  regular := (regular w \<and> regular_varlenInt pf dest (bytesLeftInStation (stnData w)) (fp_in w))\<rparr>"
    by blast
  from store_opt_long_frame[OF s] assms(2) show ?thesis
    unfolding w' by (auto simp: kept_def counts_kept_def)
qed

lemma getVarlenIntField_else_acct:
  assumes "dest \<noteq> BytesInStation"
  shows "establishes acct (getVarlenIntField_else pf dest dflt)"
proof (rule establishesI)
  fix w w' assume "getVarlenIntField_else pf dest dflt w = Inr w'"
  then obtain st w1 where c: "call_getVarlenIntField pf dest w = Inr (st, w1)"
    and d: "assign_default dest dflt st w1 = Inr w'"
    unfolding getVarlenIntField_else_def by (auto simp: andThen_Inr_iff)
  from call_getVarlenIntField_acct[OF c assms] have "acct w w1" .
  moreover from assign_default_frame[OF d] assms have "acct w1 w'" by (auto simp: acct_def)
  ultimately show "acct w w'" using preorder_acct unfolding preorder_on_runs_def by blast
qed

lemma getVarlenIntField_else_kept:
  assumes "counts_kept dest"
  shows "establishes kept (getVarlenIntField_else pf dest dflt)"
proof (rule establishesI)
  fix w w' assume "getVarlenIntField_else pf dest dflt w = Inr w'"
  then obtain st w1 where c: "call_getVarlenIntField pf dest w = Inr (st, w1)"
    and d: "assign_default dest dflt st w1 = Inr w'"
    unfolding getVarlenIntField_else_def by (auto simp: andThen_Inr_iff)
  from call_getVarlenIntField_kept[OF c assms] have "kept w w1" .
  moreover from assign_default_frame[OF d] assms have "kept w1 w'" by simp
  ultimately show "kept w w'" using preorder_kept unfolding preorder_on_runs_def by blast
qed

lemma call_getVarlenFloatField_acct_kept:
  assumes "call_getVarlenFloatField pf dest w = Inr (st, w')"
  shows "acct w w' \<and> kept w w'"
proof -
  from call_getVarlenFloatField_effect[OF assms] obtain wr b rest s' where
    g: "getVarlenFloatField pf (bytesLeftInStation (stnData w)) (fp_in w) = Inr (st, wr, b, rest)" and
    s: "store_opt_double dest wr (stnData w) = Inr s'" and
    w': "w' = w\<lparr>stnData := s'\<lparr>bytesLeftInStation := b\<rparr>, fp_in := rest,
                  regular := (regular w \<and> regular_varlenFloat pf (fp_in w))\<rparr>"
    by blast
  from getVarlenFloatField_consumes[OF g] obtain c where
    c: "fp_in w = c @ rest"
    "regular_varlenFloat pf (fp_in w) \<longrightarrow> int (content c) = bytesLeftInStation (stnData w) - b" by auto
  from store_opt_double_frame[OF s] c show ?thesis
    unfolding acct_def kept_def w' by (intro conjI exI[of _ c]) auto
qed

lemma getVarlenFloatField_into_acct: "establishes acct (getVarlenFloatField_into pf dest)"
  unfolding getVarlenFloatField_into_def
  by (rule establishesI) (auto simp: andThen_Inr_iff dest: call_getVarlenFloatField_acct_kept)

lemma getVarlenFloatField_into_kept: "establishes kept (getVarlenFloatField_into pf dest)"
  unfolding getVarlenFloatField_into_def
  by (rule establishesI) (auto simp: andThen_Inr_iff dest: call_getVarlenFloatField_acct_kept)

lemma getValueAndErrCode_acct:
  assumes "err \<noteq> BytesInStation"
  shows "establishes acct (getValueAndErrCode pf dest err)"
proof (rule establishesI)
  fix w w' assume "getValueAndErrCode pf dest err w = Inr w'"
  then obtain st w1 where c: "call_getVarlenFloatField pf dest w = Inr (st, w1)"
    and d: "(if st \<noteq> ZERO_LENGTH_FIELD then getIntDigits_else pf 1 err None w1 else Inr w1) = Inr w'"
    unfolding getValueAndErrCode_def by (auto simp: andThen_Inr_iff)
  from call_getVarlenFloatField_acct_kept[OF c] have "acct w w1" by simp
  moreover from d getIntDigits_else_acct[of 1 err pf None] assms have "acct w1 w'"
    using preorder_acct by (auto simp: preorder_on_runs_def dest: establishesD split: if_splits)
  ultimately show "acct w w'" using preorder_acct unfolding preorder_on_runs_def by blast
qed

lemma getValueAndErrCode_kept:
  assumes "counts_kept err"
  shows "establishes kept (getValueAndErrCode pf dest err)"
proof (rule establishesI)
  fix w w' assume "getValueAndErrCode pf dest err w = Inr w'"
  then obtain st w1 where c: "call_getVarlenFloatField pf dest w = Inr (st, w1)"
    and d: "(if st \<noteq> ZERO_LENGTH_FIELD then getIntDigits_else pf 1 err None w1 else Inr w1) = Inr w'"
    unfolding getValueAndErrCode_def by (auto simp: andThen_Inr_iff)
  from call_getVarlenFloatField_acct_kept[OF c] have "kept w w1" by simp
  moreover from d getIntDigits_else_kept[of err pf 1 None] assms have "kept w1 w'"
    using preorder_kept by (auto simp: preorder_on_runs_def dest: establishesD split: if_splits)
  ultimately show "kept w w'" using preorder_kept unfolding preorder_on_runs_def by blast
qed


subsection \<open>The blocks of getOCLStationData\<close>

lemma establishes_guard:
  assumes "preorder_on_runs R" "establishes R f"
  shows "establishes R (\<lambda>w. if c w then f w else Inr w)"
  using assms by (auto simp: establishes_def preorder_on_runs_def)

lemma read_varCodes_acct: "establishes acct (read_varCodes pf)"
proof (rule establishesI)
  fix w w' assume r: "read_varCodes pf w = Inr w'"
  have "establishes acct (for_upto (numberOfVarCodes (stnData w))
       (\<lambda>j. seq [getVarlenIntField_else pf (VarCode j) None,
                 getIntDigits_else pf 1 (ErrCodeForVarCode j) None]))"
    by (intro establishes_for_upto establishes_seq preorder_acct)
       (auto intro!: getVarlenIntField_else_acct getIntDigits_else_acct)
  with r show "acct w w'" unfolding read_varCodes_def by (auto dest: establishesD)
qed

lemma read_header_rest_acct: "establishes acct (read_header_rest pf)"
  unfolding read_header_rest_def
  by (intro establishes_seq preorder_acct)
     (auto intro!: getVarlenIntField_else_acct getIntDigits_else_acct getVarlenFloatField_into_acct
        read_varCodes_acct)

lemma store_long_world_acct:
  assumes "store_long dest v (stnData w) = Inr s" "dest \<noteq> BytesInStation"
  shows "acct w (w\<lparr>stnData := s\<rparr>)"
  using store_long_frame[OF assms(1)] assms(2) by (auto simp: acct_def)

lemma store_long_world_kept:
  assumes "store_long dest v (stnData w) = Inr s" "counts_kept dest"
  shows "kept w (w\<lparr>stnData := s\<rparr>)"
  using store_long_frame[OF assms(1)] assms(2) by (auto simp: kept_def counts_kept_def)

lemma read_skipped_block_acct:
  assumes "dest \<noteq> BytesInStation"
  shows "establishes acct (read_skipped_block pf dest)"
proof (rule establishesI)
  fix w w' assume "read_skipped_block pf dest w = Inr w'"
  then obtain st w1 where c: "call_getVarlenIntField pf dest w = Inr (st, w1)"
    and d: "(if st \<noteq> ZERO_LENGTH_FIELD then
         for_upto (load_long pf (stnData w1) dest) (\<lambda>j. getIntDigits_else pf 1 Ld_dummy None) w1
       else andThen (store_long dest 0 (stnData w1)) (\<lambda>s. Inr (w1\<lparr>stnData := s\<rparr>))) = Inr w'"
    unfolding read_skipped_block_def by (auto simp: andThen_Inr_iff simp del: load_long.simps)
  from call_getVarlenIntField_acct[OF c assms] have 1: "acct w w1" .
  have "establishes acct (for_upto (load_long pf (stnData w1) dest) (\<lambda>j. getIntDigits_else pf 1 Ld_dummy None))"
    by (intro establishes_for_upto preorder_acct getIntDigits_else_acct) auto
  with d assms have "acct w1 w'"
    by (auto simp: andThen_Inr_iff dest: establishesD store_long_world_acct split: if_splits simp del: load_long.simps)
  with 1 show "acct w w'" using preorder_acct unfolding preorder_on_runs_def by blast
qed

lemma read_skipped_block_kept:
  assumes "counts_kept dest"
  shows "establishes kept (read_skipped_block pf dest)"
proof (rule establishesI)
  fix w w' assume "read_skipped_block pf dest w = Inr w'"
  then obtain st w1 where c: "call_getVarlenIntField pf dest w = Inr (st, w1)"
    and d: "(if st \<noteq> ZERO_LENGTH_FIELD then
         for_upto (load_long pf (stnData w1) dest) (\<lambda>j. getIntDigits_else pf 1 Ld_dummy None) w1
       else andThen (store_long dest 0 (stnData w1)) (\<lambda>s. Inr (w1\<lparr>stnData := s\<rparr>))) = Inr w'"
    unfolding read_skipped_block_def by (auto simp: andThen_Inr_iff simp del: load_long.simps)
  from call_getVarlenIntField_kept[OF c assms] have 1: "kept w w1" .
  have "establishes kept (for_upto (load_long pf (stnData w1) dest) (\<lambda>j. getIntDigits_else pf 1 Ld_dummy None))"
    by (intro establishes_for_upto preorder_kept getIntDigits_else_kept) (simp add: counts_kept_def)
  with d assms have "kept w1 w'"
    by (auto simp: andThen_Inr_iff dest: establishesD store_long_world_kept split: if_splits simp del: load_long.simps)
  with 1 show "kept w w'" using preorder_kept unfolding preorder_on_runs_def by blast
qed

lemma read_secHdr_entries_acct: "establishes acct (read_secHdr_entries pf)"
proof (rule establishesI)
  fix w w' assume r: "read_secHdr_entries pf w = Inr w'"
  have "establishes acct (for_upto (numberOfSecHdrEntries (stnData w))
       (\<lambda>j. seq [getVarlenIntField_else pf (SecHdrCode j) None,
                 getVarlenFloatField_into pf (SecHdrValue j)]))"
    by (intro establishes_for_upto establishes_seq preorder_acct)
       (auto intro!: getVarlenIntField_else_acct getVarlenFloatField_into_acct)
  with r show "acct w w'" unfolding read_secHdr_entries_def by (auto dest: establishesD)
qed

lemma read_secHdr_acct: "establishes acct (read_secHdr pf)"
proof (rule establishesI)
  fix w w' assume "read_secHdr pf w = Inr w'"
  then obtain st w1 where c: "call_getVarlenIntField pf BytesInSecHdr w = Inr (st, w1)"
    and d: "(if st \<noteq> ZERO_LENGTH_FIELD then
         seq [getVarlenIntField_else pf NumberOfSecHdrEntries None, read_secHdr_entries pf] w1
       else Inr (w1\<lparr>stnData := (stnData w1)\<lparr>bytesInSecHdr := 0, numberOfSecHdrEntries := 0\<rparr>\<rparr>)) = Inr w'"
    unfolding read_secHdr_def by (auto simp: andThen_Inr_iff)
  from call_getVarlenIntField_acct[OF c] have 1: "acct w w1" by simp
  have "establishes acct (seq [getVarlenIntField_else pf NumberOfSecHdrEntries None, read_secHdr_entries pf])"
    by (intro establishes_seq preorder_acct)
       (auto intro!: getVarlenIntField_else_acct read_secHdr_entries_acct)
  with d have "acct w1 w'"
    by (auto dest: establishesD split: if_splits simp: acct_def)
  with 1 show "acct w w'" using preorder_acct unfolding preorder_on_runs_def by blast
qed

lemma with_choice_fields [simp]:
  "bytesLeftInStation (with_choice p c s) = bytesLeftInStation s"
  "bytesInStation (with_choice p c s) = bytesInStation s"
  "numberOfLevels (with_choice p c s) = numberOfLevels s"
  "bottomDepthPtr (with_choice p c s) = p"
  "bottomDepthSource (with_choice p c s) = c"
  "lat (with_choice p c s) = lat s"
  by (simp_all add: with_choice_def)

lemma assign_hdr_fields [simp]:
  "bytesLeftInStation (assign_hdr_bottomDepth pf s) = bytesLeftInStation s"
  "bytesInStation (assign_hdr_bottomDepth pf s) = bytesInStation s"
  "numberOfLevels (assign_hdr_bottomDepth pf s) = numberOfLevels s"
  by (simp_all add: assign_hdr_eq split: option.splits)

lemma fscanf_dbBathy_fields [simp]:
  "stnData (fscanf_dbBathy w) = stnData w" "fp_in (fscanf_dbBathy w) = fp_in w"
  "regular (fscanf_dbBathy w) = regular w" "stderr (fscanf_dbBathy w) = stderr w"
  by (simp_all add: fscanf_dbBathy_def split: list.splits)

lemma select_database_fields [simp]:
  "fp_in (select_database w) = fp_in w" "regular (select_database w) = regular w"
  "stderr (select_database w) = stderr w"
  "databaseBathyValue (select_database w) = databaseBathyValue w"
  "bytesLeftInStation (stnData (select_database w)) = bytesLeftInStation (stnData w)"
  "bytesInStation (stnData (select_database w)) = bytesInStation (stnData w)"
  "numberOfLevels (stnData (select_database w)) = numberOfLevels (stnData w)"
  "depthValue (stnData (select_database w)) = depthValue (stnData w)"
  "bottomDepthPtr (stnData (select_database w)) = DatabaseBathy"
  "bottomDepthSource (stnData (select_database w)) = CHR ''d''"
  by (simp_all add: select_database_def)

lemma select_profile_fields [simp]:
  "fp_in (select_profile w) = fp_in w" "regular (select_profile w) = regular w"
  "stderr (select_profile w) = stderr w"
  "databaseBathyValue (select_profile w) = databaseBathyValue w"
  "bytesLeftInStation (stnData (select_profile w)) = bytesLeftInStation (stnData w)"
  "bytesInStation (stnData (select_profile w)) = bytesInStation (stnData w)"
  "numberOfLevels (stnData (select_profile w)) = numberOfLevels (stnData w)"
  "depthValue (stnData (select_profile w)) = depthValue (stnData w)"
  "bottomDepthPtr (stnData (select_profile w)) =
     InStation (DepthValue (nat (numberOfLevels (stnData w) - 1)))"
  "bottomDepthSource (stnData (select_profile w)) = CHR ''p''"
  by (simp_all add: select_profile_def)

lemma dbBathy_pass1_cases:
  assumes "dbBathy_pass1 pf w = Inr w'"
  shows "w' = select_database ((fscanf_dbBathy w)\<lparr>databaseBathyValue := dneg (databaseBathyValue (fscanf_dbBathy w))\<rparr>)
       \<or> w' = (fscanf_dbBathy w)\<lparr>databaseBathyValue := dneg (databaseBathyValue (fscanf_dbBathy w))\<rparr>"
  using assms unfolding dbBathy_pass1_def Let_def andThen_def
  by (simp split: if_splits sum.splits)

lemma dbBathy_pass1_frame:
  assumes "dbBathy_pass1 pf w = Inr w'"
  shows "fp_in w' = fp_in w \<and> regular w' = regular w \<and>
         bytesLeftInStation (stnData w') = bytesLeftInStation (stnData w) \<and>
         bytesInStation (stnData w') = bytesInStation (stnData w) \<and>
         numberOfLevels (stnData w') = numberOfLevels (stnData w)"
  using dbBathy_pass1_cases[OF assms] by auto

lemma bottomDepth_pass1_frame:
  assumes "bottomDepth_pass1 pf a w = Inr w'"
  shows "fp_in w' = fp_in w \<and> regular w' = regular w \<and>
         bytesLeftInStation (stnData w') = bytesLeftInStation (stnData w) \<and>
         bytesInStation (stnData w') = bytesInStation (stnData w) \<and>
         numberOfLevels (stnData w') = numberOfLevels (stnData w)"
proof (cases "dbBathyFlag a")
  case True
  with assms have "dbBathy_pass1 pf (w\<lparr>stnData := assign_hdr_bottomDepth pf (stnData w)\<rparr>) = Inr w'"
    by (simp add: bottomDepth_pass1_def Let_def)
  from dbBathy_pass1_frame[OF this] show ?thesis by simp
next
  case False
  with assms have "w' = w\<lparr>stnData := assign_hdr_bottomDepth pf (stnData w)\<rparr>"
    by (simp add: bottomDepth_pass1_def Let_def)
  then show ?thesis by simp
qed

lemma bottomDepth_pass1_acct: "establishes acct (bottomDepth_pass1 pf a)"
  by (rule establishesI) (auto simp: acct_def dest!: bottomDepth_pass1_frame)

lemma bottomDepth_pass2_cases:
  assumes "bottomDepth_pass2 pf a w = Inr w'"
  shows "w' = select_profile w \<or> w' = select_database w \<or> w' = w"
  using assms unfolding bottomDepth_pass2_def Let_def andThen_def
  by (simp split: if_splits sum.splits del: load_double.simps)

lemma bottomDepth_pass2_frame:
  assumes "bottomDepth_pass2 pf a w = Inr w'"
  shows "fp_in w' = fp_in w \<and> regular w' = regular w \<and>
         bytesLeftInStation (stnData w') = bytesLeftInStation (stnData w) \<and>
         bytesInStation (stnData w') = bytesInStation (stnData w) \<and>
         numberOfLevels (stnData w') = numberOfLevels (stnData w) \<and>
         depthValue (stnData w') = depthValue (stnData w) \<and> stderr w' = stderr w"
  using bottomDepth_pass2_cases[OF assms] by auto

lemma bottomDepth_pass2_acct: "establishes acct (bottomDepth_pass2 pf a)"
  by (rule establishesI) (auto simp: acct_def dest!: bottomDepth_pass2_frame)

lemma store_double_world:
  assumes "store_double dest v (stnData w) = Inr s"
  shows "acct w (w\<lparr>stnData := s\<rparr>) \<and> kept w (w\<lparr>stnData := s\<rparr>)"
  using store_double_frame[OF assms] by (auto simp: acct_def kept_def)

lemma read_level_acct: "establishes acct (read_level pf j)"
proof (rule establishesI)
  fix w w' assume "read_level pf j w = Inr w'"
  then obtain w1 where
    a: "(if stationType (stnData w) = 0 then
          getValueAndErrCode pf (DepthValue j) (ErrCodeForDepthValue j) w
        else andThen (store_double (DepthValue j) (stdLevelDepth pf j) (stnData w))
               (\<lambda>s. Inr (w\<lparr>stnData := s\<rparr>))) = Inr w1"
    and b: "for_upto (numberOfVarCodes (stnData w1))
                (\<lambda>k. getValueAndErrCode pf (VarValue k j) (ErrCodeForVarValue k j)) w1 = Inr w'"
    unfolding read_level_def by (auto simp: andThen_Inr_iff)
  from a getValueAndErrCode_acct[of "ErrCodeForDepthValue j" pf "DepthValue j"] have "acct w w1"
    by (auto simp: andThen_Inr_iff dest: establishesD store_double_world split: if_splits
        simp del: store_double.simps)
  moreover have "establishes acct (for_upto (numberOfVarCodes (stnData w1))
                (\<lambda>k. getValueAndErrCode pf (VarValue k j) (ErrCodeForVarValue k j)))"
    by (intro establishes_for_upto preorder_acct getValueAndErrCode_acct) simp
  with b have "acct w1 w'" by (auto dest: establishesD)
  ultimately show "acct w w'" using preorder_acct unfolding preorder_on_runs_def by blast
qed

lemma read_level_kept: "establishes kept (read_level pf j)"
proof (rule establishesI)
  fix w w' assume "read_level pf j w = Inr w'"
  then obtain w1 where
    a: "(if stationType (stnData w) = 0 then
          getValueAndErrCode pf (DepthValue j) (ErrCodeForDepthValue j) w
        else andThen (store_double (DepthValue j) (stdLevelDepth pf j) (stnData w))
               (\<lambda>s. Inr (w\<lparr>stnData := s\<rparr>))) = Inr w1"
    and b: "for_upto (numberOfVarCodes (stnData w1))
                (\<lambda>k. getValueAndErrCode pf (VarValue k j) (ErrCodeForVarValue k j)) w1 = Inr w'"
    unfolding read_level_def by (auto simp: andThen_Inr_iff)
  from a getValueAndErrCode_kept[of "ErrCodeForDepthValue j" pf "DepthValue j"] have "kept w w1"
    by (auto simp: andThen_Inr_iff counts_kept_def dest: establishesD store_double_world split: if_splits
        simp del: store_double.simps)
  moreover have "establishes kept (for_upto (numberOfVarCodes (stnData w1))
                (\<lambda>k. getValueAndErrCode pf (VarValue k j) (ErrCodeForVarValue k j)))"
    by (intro establishes_for_upto preorder_kept getValueAndErrCode_kept) (simp add: counts_kept_def)
  with b have "kept w1 w'" by (auto dest: establishesD)
  ultimately show "kept w w'" using preorder_kept unfolding preorder_on_runs_def by blast
qed

lemma warn_levels_fields [simp]:
  "stnData (warn_levels a w) = stnData w" "fp_in (warn_levels a w) = fp_in w"
  "regular (warn_levels a w) = regular w" "databaseBathyValue (warn_levels a w) = databaseBathyValue w"
  "fp_dbBathy (warn_levels a w) = fp_dbBathy w"
  by (simp_all add: warn_levels_def)

lemma read_profile_acct: "establishes acct (read_profile pf a)"
proof (rule establishesI)
  fix w w' assume r: "read_profile pf a w = Inr w'"
  have "establishes acct (for_upto (min (numberOfLevels (stnData w)) (int MAX_LEVELS)) (read_level pf))"
    by (intro establishes_for_upto preorder_acct read_level_acct)
  with r have "acct (warn_levels a w) w'" unfolding read_profile_def Let_def
    by (auto dest: establishesD)
  then show "acct w w'" by (simp add: acct_def)
qed

lemma read_profile_kept:
  assumes "read_profile pf a w = Inr w'"
  shows "kept (warn_levels a w) w'"
proof -
  have "establishes kept (for_upto (min (numberOfLevels (stnData w)) (int MAX_LEVELS)) (read_level pf))"
    by (intro establishes_for_upto preorder_kept read_level_kept)
  with assms show ?thesis unfolding read_profile_def Let_def
    by (auto dest: establishesD)
qed

lemma set_filter_flags_fields [simp]:
  "bytesLeftInStation (set_filter_flags pf a s) = bytesLeftInStation s"
  "bytesInStation (set_filter_flags pf a s) = bytesInStation s"
  "numberOfLevels (set_filter_flags pf a s) = numberOfLevels s"
  "bottomDepthPtr (set_filter_flags pf a s) = bottomDepthPtr s"
  "bottomDepthSource (set_filter_flags pf a s) = bottomDepthSource s"
  by (simp_all add: set_filter_flags_def)

lemma read_station_body_acct: "establishes acct (read_station_body pf a)"
proof (rule establishesI)
  fix w w' assume "read_station_body pf a w = Inr w'"
  then obtain w1 where
    a: "seq [read_header_rest pf, read_skipped_block pf BytesInCharPI, read_secHdr pf,
             bottomDepth_pass1 pf a] w = Inr w1"
    and b: "(let wf = w1\<lparr>stnData := set_filter_flags pf a (stnData w1)\<rparr>
       in if read_rest_wanted a (stnData wf) then
            seq [read_skipped_block pf BytesInBioHdr, read_profile pf a, bottomDepth_pass2 pf a] wf
          else Inr wf) = Inr w'"
    unfolding read_station_body_def andThen_Inr_iff by blast
  define wf where "wf = w1\<lparr>stnData := set_filter_flags pf a (stnData w1)\<rparr>"
  have "establishes acct (seq [read_header_rest pf, read_skipped_block pf BytesInCharPI, read_secHdr pf,
             bottomDepth_pass1 pf a])"
    by (intro establishes_seq preorder_acct)
       (auto intro!: read_header_rest_acct read_skipped_block_acct read_secHdr_acct bottomDepth_pass1_acct)
  from this a have 1: "acct w w1" by (rule establishesD)
  have 2: "acct w1 wf"
    unfolding wf_def by (simp add: acct_def)
  have e3: "establishes acct (seq [read_skipped_block pf BytesInBioHdr, read_profile pf a, bottomDepth_pass2 pf a])"
    by (intro establishes_seq preorder_acct)
       (auto intro!: read_skipped_block_acct read_profile_acct bottomDepth_pass2_acct)
  have 3: "acct wf w'"
  proof (cases "read_rest_wanted a (stnData wf)")
    case True
    with b have "seq [read_skipped_block pf BytesInBioHdr, read_profile pf a, bottomDepth_pass2 pf a] wf = Inr w'"
      unfolding wf_def[symmetric] Let_def by simp
    with e3 show ?thesis by (auto dest: establishesD)
  next
    case False
    with b have "w' = wf" unfolding wf_def[symmetric] Let_def by simp
    then show ?thesis by (simp add: acct_def)
  qed
  from 1 2 3 show "acct w w'" using preorder_acct unfolding preorder_on_runs_def by blast
qed

section \<open>Byte accounting of a station\<close>

lemma first_field:
  assumes "getVarlenIntField_else pf BytesInStation (Some 0) w = Inr w'"
    and "bytesLeftInStation (stnData w) = - 1"
  shows "\<exists>c. fp_in w = c @ fp_in w' \<and>
           (regular w' \<longrightarrow> regular w \<and>
              int (content c) + bytesLeftInStation (stnData w') = bytesInStation (stnData w'))"
proof -
  from assms(1) obtain st w1 where c: "call_getVarlenIntField pf BytesInStation w = Inr (st, w1)"
    and d: "assign_default BytesInStation (Some 0) st w1 = Inr w'"
    unfolding getVarlenIntField_else_def by (auto simp: andThen_Inr_iff)
  from call_getVarlenIntField_effect[OF c] obtain wr b rest s' where
    g: "getVarlenIntField pf (load_long pf (stnData w) BytesInStation) (bytesLeftInStation (stnData w)) (fp_in w)
             = Inr (st, wr, b, rest)" and
    s: "store_opt_long BytesInStation wr (stnData w) = Inr s'" and
    w1: "w1 = w\<lparr>stnData := s'\<lparr>bytesLeftInStation := b\<rparr>, fp_in := rest,
                  regular := (regular w \<and> regular_varlenInt pf BytesInStation (bytesLeftInStation (stnData w)) (fp_in w))\<rparr>"
    by blast
  from getVarlenIntField_consumes[OF g, of BytesInStation] assms(2) obtain c where
    cc: "fp_in w = c @ rest"
    "regular_varlenInt pf BytesInStation (bytesLeftInStation (stnData w)) (fp_in w) \<longrightarrow>
       st \<noteq> ZERO_LENGTH_FIELD \<and> int (content c) + b = stored (bytesInStation (stnData w)) wr" by auto
  from s have B: "bytesInStation s' = stored (bytesInStation (stnData w)) wr"
    by (cases wr) (auto simp: store_opt_long_def stored_def)
  from assign_default_frame[OF d] have f: "fp_in w' = fp_in w1" "regular w' = regular w1"
    "bytesLeftInStation (stnData w') = bytesLeftInStation (stnData w1)" by auto
  have "regular w' \<longrightarrow> regular w \<and>
              int (content c) + bytesLeftInStation (stnData w') = bytesInStation (stnData w')"
  proof
    assume r: "regular w'"
    with f w1 have rw: "regular w" and rv: "regular_varlenInt pf BytesInStation (bytesLeftInStation (stnData w)) (fp_in w)"
      by auto
    with cc have nz: "st \<noteq> ZERO_LENGTH_FIELD" and e: "int (content c) + b = stored (bytesInStation (stnData w)) wr"
      by auto
    from d nz have "w' = w1" by (simp add: assign_default_def)
    with w1 B e rw show "regular w \<and>
              int (content c) + bytesLeftInStation (stnData w') = bytesInStation (stnData w')"
      by simp
  qed
  with cc f w1 show ?thesis by (intro exI[of _ c]) simp
qed

lemma read_first_fields_acct:
  assumes "read_first_fields pf w = Inr w'" and "bytesLeftInStation (stnData w) = - 1"
  shows "\<exists>c. fp_in w = c @ fp_in w' \<and>
           (regular w' \<longrightarrow> regular w \<and>
              int (content c) + bytesLeftInStation (stnData w') = bytesInStation (stnData w'))"
proof -
  from assms(1) obtain w1 where a: "getVarlenIntField_else pf BytesInStation (Some 0) w = Inr w1"
    and b: "getVarlenIntField_else pf OclStationNumber (Some (- 1)) w1 = Inr w'"
    unfolding read_first_fields_def by (auto simp: andThen_Inr_iff)
  from first_field[OF a assms(2)] obtain c1 where c1: "fp_in w = c1 @ fp_in w1"
    "regular w1 \<longrightarrow> regular w \<and>
              int (content c1) + bytesLeftInStation (stnData w1) = bytesInStation (stnData w1)" by blast
  from b getVarlenIntField_else_acct[of OclStationNumber pf "Some (- 1)"] have "acct w1 w'"
    by (auto dest: establishesD)
  then obtain c2 where c2: "fp_in w1 = c2 @ fp_in w'"
    "regular w' \<longrightarrow> regular w1 \<and>
       int (content c2) = bytesLeftInStation (stnData w1) - bytesLeftInStation (stnData w')"
    and B: "bytesInStation (stnData w') = bytesInStation (stnData w1)"
    unfolding acct_def by blast
  show ?thesis using c1 c2 B by (intro exI[of _ "c1 @ c2"]) auto
qed

lemma realign_consumes:
  assumes "nat (bytesLeftInStation (stnData w)) \<le> content (fp_in w)"
  shows "\<exists>sk line. fp_in w = sk @ line @ fp_in (realign w) \<and>
           content sk = nat (bytesLeftInStation (stnData w)) \<and>
           line = fgets_line 79 (line @ fp_in (realign w))"
proof -
  from skip_loop_consumes[OF assms] obtain sk where
    sk: "fp_in w = sk @ skip_loop (nat (bytesLeftInStation (stnData w))) (fp_in w)"
    "content sk = nat (bytesLeftInStation (stnData w))" by blast
  let ?X = "skip_loop (nat (bytesLeftInStation (stnData w))) (fp_in w)"
  have r: "fp_in (realign w) = fgets_rest 79 ?X"
    by (simp add: realign_def skipToNextStation_def)
  have X: "?X = fgets_line 79 ?X @ fgets_rest 79 ?X" by (rule fgets_line_prefix)
  have 1: "fp_in w = sk @ fgets_line 79 ?X @ fp_in (realign w)"
    using sk(1) X r by simp
  have 2: "fgets_line 79 ?X = fgets_line 79 (fgets_line 79 ?X @ fp_in (realign w))"
    using X r by simp
  from 1 sk(2) 2 show ?thesis by blast
qed

lemma realign_fields [simp]:
  "stnData (realign w) = stnData w" "regular (realign w) = regular w"
  "fp_dbBathy (realign w) = fp_dbBathy w" "stderr (realign w) = stderr w"
  "databaseBathyValue (realign w) = databaseBathyValue w"
  by (simp_all add: realign_def)

lemma fscanf_dbBathy_dummy_fields [simp]:
  "stnData (fscanf_dbBathy_dummy w) = stnData w" "regular (fscanf_dbBathy_dummy w) = regular w"
  "fp_in (fscanf_dbBathy_dummy w) = fp_in w" "stderr (fscanf_dbBathy_dummy w) = stderr w"
  "databaseBathyValue (fscanf_dbBathy_dummy w) = databaseBathyValue w"
  "fp_dbBathy (fscanf_dbBathy_dummy w) = tl (fp_dbBathy w)"
  by (simp_all add: fscanf_dbBathy_dummy_def)

lemma before_realign:
  assumes "getOCLStationData pf a w0 = Inr (st, w)"
  shows "\<exists>w2 c. fp_in w0 = c @ fp_in w2 \<and> stnData w = stnData w2 \<and> regular w = regular w2 \<and>
           fp_in w = fp_in (realign w2) \<and>
           (regular w2 \<longrightarrow>
              int (content c) + bytesLeftInStation (stnData w2) = bytesInStation (stnData w2))"
proof -
  let ?wi = "w0\<lparr>stnData := (stnData w0)\<lparr>bytesLeftInStation := - 1\<rparr>\<rparr>"
  from assms obtain w1 where f: "read_first_fields pf ?wi = Inr w1"
    and r: "(if skipFlag a \<and> stn a < stnToSkipTo a then
               Inr (SKIPPED, (if dbBathyFlag a then fscanf_dbBathy_dummy else id) (realign w1))
             else andThen (read_station_body pf a w1) (\<lambda>w'. Inr (SUCCESSFUL, realign w'))) = Inr (st, w)"
    unfolding getOCLStationData_def andThen_Inr_iff by blast
  from read_first_fields_acct[OF f] obtain c1 where c1: "fp_in w0 = c1 @ fp_in w1"
    "regular w1 \<longrightarrow> int (content c1) + bytesLeftInStation (stnData w1) = bytesInStation (stnData w1)"
    by auto
  show ?thesis
  proof (cases "skipFlag a \<and> stn a < stnToSkipTo a")
    case True
    with r have "w = (if dbBathyFlag a then fscanf_dbBathy_dummy else id) (realign w1)" by simp
    then have "stnData w = stnData w1 \<and> regular w = regular w1 \<and> fp_in w = fp_in (realign w1)"
      by (cases "dbBathyFlag a") simp_all
    with c1 show ?thesis by (intro exI[of _ w1] exI[of _ c1]) simp
  next
    case False
    with r obtain w2 where b: "read_station_body pf a w1 = Inr w2" and w: "w = realign w2"
      by (auto simp: andThen_Inr_iff)
    from b read_station_body_acct[of pf a] have "acct w1 w2" by (auto dest: establishesD)
    then obtain c2 where c2: "fp_in w1 = c2 @ fp_in w2"
      "regular w2 \<longrightarrow> regular w1 \<and>
         int (content c2) = bytesLeftInStation (stnData w1) - bytesLeftInStation (stnData w2)"
      and B: "bytesInStation (stnData w2) = bytesInStation (stnData w1)"
      unfolding acct_def by blast
    show ?thesis using c1 c2 B w by (intro exI[of _ w2] exI[of _ "c1 @ c2"]) auto
  qed
qed

text \<open>
  Claim C1. A call of getOCLStationData that returns (on the skipping path as on the
  decoding path), for a well-formed station: every length-prefixed field read was
  regular (the ghost flag), the decoder did not read beyond the declared length (the
  remaining budget is not negative), and the input holds the declared number of
  content bytes. Then the input consumed by the call is a piece \<open>body\<close> whose content
  bytes (those read by the decode steps and those discarded by the skip loop of
  skipToNextStation) number exactly \<^verbatim>\<open>bytesInStation\<close>, followed by the one line
  that the \<^verbatim>\<open>fgets\<close> of skipToNextStation reads.
\<close>

theorem station_byte_accounting:
  assumes "getOCLStationData pf a w0 = Inr (st, w)"
    and "regular w"
    and "0 \<le> bytesLeftInStation (stnData w)"
    and "bytesInStation (stnData w) \<le> int (content (fp_in w0))"
  shows "\<exists>body line. fp_in w0 = body @ line @ fp_in w \<and>
           int (content body) = bytesInStation (stnData w) \<and>
           line = fgets_line 79 (line @ fp_in w)"
proof -
  from before_realign[OF assms(1)] assms(2) obtain w2 c where
    c: "fp_in w0 = c @ fp_in w2" and s: "stnData w = stnData w2" and f: "fp_in w = fp_in (realign w2)"
    and e: "int (content c) + bytesLeftInStation (stnData w2) = bytesInStation (stnData w2)"
    by auto
  from c have "content (fp_in w0) = content c + content (fp_in w2)" by simp
  with assms(3,4) e s have "nat (bytesLeftInStation (stnData w2)) \<le> content (fp_in w2)" by simp
  from realign_consumes[OF this] obtain sk line where
    k: "fp_in w2 = sk @ line @ fp_in (realign w2)" "content sk = nat (bytesLeftInStation (stnData w2))"
       "line = fgets_line 79 (line @ fp_in (realign w2))" by blast
  have 1: "fp_in w0 = (c @ sk) @ line @ fp_in w" using c k(1) f by simp
  have 2: "int (content (c @ sk)) = bytesInStation (stnData w)" using e k(2) s assms(3) by simp
  have 3: "line = fgets_line 79 (line @ fp_in w)" using k(3) f by simp
  from 1 2 3 show ?thesis by blast
qed

section \<open>Skipping ahead\<close>

lemma first_fields_only_refl: "first_fields_only s s"
  unfolding first_fields_only_def
  by (intro exI[of _ "bytesLeftInStation s"] exI[of _ "bytesInStation s"] exI[of _ "oclStationNumber s"]) simp

lemma first_fields_only_trans:
  "first_fields_only s s' \<Longrightarrow> first_fields_only s' s'' \<Longrightarrow> first_fields_only s s''"
  unfolding first_fields_only_def by (elim exE, simp, blast)

lemma first_fields_only_upd:
  "first_fields_only s (s\<lparr>bytesLeftInStation := b\<rparr>)"
  "first_fields_only s (s\<lparr>bytesInStation := B\<rparr>)"
  "first_fields_only s (s\<lparr>oclStationNumber := i\<rparr>)"
  unfolding first_fields_only_def
  by (rule exI[of _ b], rule exI[of _ "bytesInStation s"], rule exI[of _ "oclStationNumber s"], simp)
     (rule exI[of _ "bytesLeftInStation s"], rule exI[of _ B], rule exI[of _ "oclStationNumber s"], simp,
      rule exI[of _ "bytesLeftInStation s"], rule exI[of _ "bytesInStation s"], rule exI[of _ i], simp)

lemma getVarlenIntField_else_first:
  assumes "getVarlenIntField_else pf dest dflt w = Inr w'" "dest = BytesInStation \<or> dest = OclStationNumber"
  shows "first_fields_only (stnData w) (stnData w') \<and> fp_dbBathy w' = fp_dbBathy w \<and>
         databaseBathyValue w' = databaseBathyValue w \<and> stderr w' = stderr w"
proof -
  from assms(1) obtain st w1 where c: "call_getVarlenIntField pf dest w = Inr (st, w1)"
    and d: "assign_default dest dflt st w1 = Inr w'"
    unfolding getVarlenIntField_else_def by (auto simp: andThen_Inr_iff)
  from call_getVarlenIntField_effect[OF c] obtain wr b rest s' where
    s: "store_opt_long dest wr (stnData w) = Inr s'" and
    w1: "w1 = w\<lparr>stnData := s'\<lparr>bytesLeftInStation := b\<rparr>, fp_in := rest,
                  regular := (regular w \<and> regular_varlenInt pf dest (bytesLeftInStation (stnData w)) (fp_in w))\<rparr>"
    by blast
  from s assms(2) have "first_fields_only (stnData w) s'"
    by (cases wr) (auto simp: store_opt_long_def first_fields_only_refl first_fields_only_upd)
  then have 1: "first_fields_only (stnData w) (stnData w1)"
    unfolding w1 using first_fields_only_upd(1)[of s' b] by (auto intro: first_fields_only_trans)
  from assign_default_effect[OF d] assms(2) have "first_fields_only (stnData w1) (stnData w')"
    by (auto simp: first_fields_only_refl first_fields_only_upd)
  with 1 have "first_fields_only (stnData w) (stnData w')" by (rule first_fields_only_trans)
  moreover from assign_default_effect[OF d] w1 have "fp_dbBathy w' = fp_dbBathy w \<and>
         databaseBathyValue w' = databaseBathyValue w \<and> stderr w' = stderr w" by auto
  ultimately show ?thesis by simp
qed

lemma read_first_fields_only:
  assumes "read_first_fields pf w = Inr w'"
  shows "first_fields_only (stnData w) (stnData w') \<and> fp_dbBathy w' = fp_dbBathy w \<and>
         databaseBathyValue w' = databaseBathyValue w \<and> stderr w' = stderr w"
proof -
  from assms obtain w1 where a: "getVarlenIntField_else pf BytesInStation (Some 0) w = Inr w1"
    and b: "getVarlenIntField_else pf OclStationNumber (Some (- 1)) w1 = Inr w'"
    unfolding read_first_fields_def by (auto simp: andThen_Inr_iff)
  from getVarlenIntField_else_first[OF a] getVarlenIntField_else_first[OF b]
  show ?thesis by (auto intro: first_fields_only_trans)
qed

lemma read_station_body_skipFlag:
  "read_station_body pf (a\<lparr>skipFlag := f\<rparr>) = read_station_body pf a"
  unfolding read_station_body_def bottomDepth_pass1_def set_filter_flags_def read_rest_wanted_def
    reallyWantProfile_def read_profile_def warn_levels_def bottomDepth_pass2_def
  by (simp cong: if_cong)

text \<open>
  Claim C9. When skipping is requested and the station ordinal is below the target,
  getOCLStationData reads the two first fields (total byte count and station number)
  and nothing else of the station: a fault of these two reads is the fault of the
  call, and otherwise the call returns SKIPPED, the input realigned by
  skipToNextStation with the remaining budget, the bathymetry file advanced by one
  line when bathymetry is enabled, and the structure changed at most in the budget and
  the two fields. At or beyond the target the call is the call without the skip
  request, and never returns SKIPPED.
\<close>

theorem getOCLStationData_skip_ahead:
  "(skipFlag a \<and> stn a < stnToSkipTo a \<longrightarrow>
      (\<forall>e. read_first_fields pf (w0\<lparr>stnData := (stnData w0)\<lparr>bytesLeftInStation := - 1\<rparr>\<rparr>) = Inl e \<longrightarrow>
           getOCLStationData pf a w0 = Inl e) \<and>
      (\<forall>w1. read_first_fields pf (w0\<lparr>stnData := (stnData w0)\<lparr>bytesLeftInStation := - 1\<rparr>\<rparr>) = Inr w1 \<longrightarrow>
           getOCLStationData pf a w0 =
             Inr (SKIPPED,
                  w1\<lparr>fp_in := fgets_rest 79 (skip_loop (nat (bytesLeftInStation (stnData w1))) (fp_in w1)),
                     fp_dbBathy := (if dbBathyFlag a then tl (fp_dbBathy w0) else fp_dbBathy w0)\<rparr>) \<and>
           first_fields_only (stnData w0) (stnData w1) \<and>
           databaseBathyValue w1 = databaseBathyValue w0 \<and> stderr w1 = stderr w0)) \<and>
   (\<not> (skipFlag a \<and> stn a < stnToSkipTo a) \<longrightarrow>
      getOCLStationData pf a w0 = getOCLStationData pf (a\<lparr>skipFlag := False\<rparr>) w0 \<and>
      (\<forall>w. getOCLStationData pf a w0 \<noteq> Inr (SKIPPED, w)))"
proof (intro conjI impI allI)
  fix e
  assume "skipFlag a \<and> stn a < stnToSkipTo a"
    and "read_first_fields pf (w0\<lparr>stnData := (stnData w0)\<lparr>bytesLeftInStation := - 1\<rparr>\<rparr>) = Inl e"
  then show "getOCLStationData pf a w0 = Inl e" by (simp add: getOCLStationData_def)
next
  fix w1
  assume sk: "skipFlag a \<and> stn a < stnToSkipTo a"
    and r: "read_first_fields pf (w0\<lparr>stnData := (stnData w0)\<lparr>bytesLeftInStation := - 1\<rparr>\<rparr>) = Inr w1"
  from read_first_fields_only[OF r] have f: "first_fields_only (stnData w0) (stnData w1)"
    "fp_dbBathy w1 = fp_dbBathy w0" "databaseBathyValue w1 = databaseBathyValue w0" "stderr w1 = stderr w0"
    using first_fields_only_upd(1)[of "stnData w0" "- 1"] by (auto intro: first_fields_only_trans)
  from f show "first_fields_only (stnData w0) (stnData w1)" "databaseBathyValue w1 = databaseBathyValue w0"
    "stderr w1 = stderr w0" by simp_all
  from sk r f(2) show "getOCLStationData pf a w0 =
             Inr (SKIPPED,
                  w1\<lparr>fp_in := fgets_rest 79 (skip_loop (nat (bytesLeftInStation (stnData w1))) (fp_in w1)),
                     fp_dbBathy := (if dbBathyFlag a then tl (fp_dbBathy w0) else fp_dbBathy w0)\<rparr>)"
    by (simp add: getOCLStationData_def realign_def skipToNextStation_def fscanf_dbBathy_dummy_def)
next
  assume n: "\<not> (skipFlag a \<and> stn a < stnToSkipTo a)"
  then show "getOCLStationData pf a w0 = getOCLStationData pf (a\<lparr>skipFlag := False\<rparr>) w0"
    by (cases "read_first_fields pf (w0\<lparr>stnData := (stnData w0)\<lparr>bytesLeftInStation := - 1\<rparr>\<rparr>)")
       (auto simp: getOCLStationData_def read_station_body_skipFlag)
  fix w
  from n show "getOCLStationData pf a w0 \<noteq> Inr (SKIPPED, w)"
    by (auto simp: getOCLStationData_def andThen_Inr_iff)
qed

section \<open>The profile levels\<close>

lemma establishes_seq_map:
  assumes "preorder_on_runs R" and "\<And>j. j \<in> set js \<Longrightarrow> establishes R (body j)"
  shows "establishes R (seq (map body js))"
  using assms by (intro establishes_seq) auto

lemma preorder_depth_same_on: "preorder_on_runs (depth_same_on P)"
  by (simp add: preorder_on_runs_def depth_same_on_def)

lemma store_double_depth:
  assumes "store_double dest v s = Inr s'"
  shows "dest = DepthValue j \<longrightarrow> j < MAX_LEVELS \<and> depthValue s' = (depthValue s)(j := v)"
    and "(\<forall>j. dest \<noteq> DepthValue j) \<longrightarrow> depthValue s' = depthValue s"
  using assms by (cases dest; auto split: if_splits)+

lemma getIntDigits_else_depth: "establishes (depth_same_on P) (getIntDigits_else pf n dest dflt)"
proof (rule establishesI)
  fix w w' assume "getIntDigits_else pf n dest dflt w = Inr w'"
  then obtain st w1 w2 where c: "call_getIntDigits pf n dest w = Inr (st, w1)"
    and d: "assign_default dest dflt st w1 = Inr w2" and w': "w' = dec_bytesLeft n w2"
    unfolding getIntDigits_else_def by (auto simp: andThen_Inr_iff)
  from call_getIntDigits_effect[OF c] obtain wr rest s' where
    s: "store_opt_long dest wr (stnData w) = Inr s'" and w1: "w1 = w\<lparr>stnData := s', fp_in := rest\<rparr>"
    by blast
  from store_opt_long_frame[OF s] w1 have "depthValue (stnData w1) = depthValue (stnData w)" by simp
  moreover from assign_default_effect[OF d] store_long_frame[of dest _ "stnData w1"]
  have "depthValue (stnData w2) = depthValue (stnData w1)" by auto
  ultimately show "depth_same_on P w w'" unfolding w' by (simp add: depth_same_on_def dec_bytesLeft_def)
qed

lemma getValueAndErrCode_depth:
  assumes "\<And>j. dest = DepthValue j \<Longrightarrow> \<not> P j"
  shows "establishes (depth_same_on P) (getValueAndErrCode pf dest err)"
proof (rule establishesI)
  fix w w' assume "getValueAndErrCode pf dest err w = Inr w'"
  then obtain st w1 where c: "call_getVarlenFloatField pf dest w = Inr (st, w1)"
    and d: "(if st \<noteq> ZERO_LENGTH_FIELD then getIntDigits_else pf 1 err None w1 else Inr w1) = Inr w'"
    unfolding getValueAndErrCode_def by (auto simp: andThen_Inr_iff)
  from call_getVarlenFloatField_effect[OF c] obtain wr b rest s' where
    s: "store_opt_double dest wr (stnData w) = Inr s'" and
    w1: "w1 = w\<lparr>stnData := s'\<lparr>bytesLeftInStation := b\<rparr>, fp_in := rest,
                  regular := (regular w \<and> regular_varlenFloat pf (fp_in w))\<rparr>"
    by blast
  have "\<forall>j. P j \<longrightarrow> depthValue s' j = depthValue (stnData w) j"
  proof (cases wr)
    case None
    with s show ?thesis by (simp add: store_opt_double_def)
  next
    case (Some v)
    with s have sd: "store_double dest v (stnData w) = Inr s'" by (simp add: store_opt_double_def)
    show ?thesis
    proof (cases "\<exists>j. dest = DepthValue j")
      case True
      then obtain j where j: "dest = DepthValue j" by blast
      with store_double_depth(1)[OF sd, of j] assms[OF j] show ?thesis by auto
    next
      case False
      with store_double_depth(2)[OF sd] show ?thesis by auto
    qed
  qed
  then have "depth_same_on P w w1" unfolding w1 by (simp add: depth_same_on_def)
  moreover from d getIntDigits_else_depth[of P pf 1 err None] have "depth_same_on P w1 w'"
    using preorder_depth_same_on[of P]
    by (auto simp: preorder_on_runs_def dest: establishesD split: if_splits)
  ultimately show "depth_same_on P w w'"
    using preorder_depth_same_on[of P] unfolding preorder_on_runs_def by blast
qed

lemma read_level_depth:
  assumes "\<not> P j"
  shows "establishes (depth_same_on P) (read_level pf j)"
proof (rule establishesI)
  fix w w' assume "read_level pf j w = Inr w'"
  then obtain w1 where
    a: "(if stationType (stnData w) = 0 then
          getValueAndErrCode pf (DepthValue j) (ErrCodeForDepthValue j) w
        else andThen (store_double (DepthValue j) (stdLevelDepth pf j) (stnData w))
               (\<lambda>s. Inr (w\<lparr>stnData := s\<rparr>))) = Inr w1"
    and b: "for_upto (numberOfVarCodes (stnData w1))
                (\<lambda>k. getValueAndErrCode pf (VarValue k j) (ErrCodeForVarValue k j)) w1 = Inr w'"
    unfolding read_level_def by (auto simp: andThen_Inr_iff)
  have 1: "depth_same_on P w w1"
  proof (cases "stationType (stnData w) = 0")
    case True
    with a have "getValueAndErrCode pf (DepthValue j) (ErrCodeForDepthValue j) w = Inr w1" by simp
    with getValueAndErrCode_depth[of "DepthValue j" P pf "ErrCodeForDepthValue j"] assms
    show ?thesis by (auto dest: establishesD)
  next
    case False
    with a obtain s where s: "store_double (DepthValue j) (stdLevelDepth pf j) (stnData w) = Inr s"
      and w1: "w1 = w\<lparr>stnData := s\<rparr>" by (auto simp: andThen_Inr_iff)
    from store_double_depth(1)[OF s, of j] assms w1 show ?thesis
      by (simp add: depth_same_on_def)
  qed
  have "establishes (depth_same_on P) (for_upto (numberOfVarCodes (stnData w1))
                (\<lambda>k. getValueAndErrCode pf (VarValue k j) (ErrCodeForVarValue k j)))"
    by (intro establishes_for_upto preorder_depth_same_on getValueAndErrCode_depth) simp
  with b have "depth_same_on P w1 w'" by (auto dest: establishesD)
  with 1 show "depth_same_on P w w'"
    using preorder_depth_same_on[of P] unfolding preorder_on_runs_def by blast
qed

lemma nat_min_int: "nat (min x (int m)) = min (nat x) m"
  by (simp add: min_def) linarith

lemma read_profile_unfold:
  "read_profile pf a w0 =
     seq (map (read_level pf) [0..<min (nat (numberOfLevels (stnData w0))) MAX_LEVELS]) (warn_levels a w0)"
  by (simp add: read_profile_def Let_def for_upto_def nat_min_int)








section \<open>Bottom depth after the profile\<close>

lemma assign_hdr_shape: "choice_shape (assign_hdr_bottomDepth pf s)"
  by (simp add: assign_hdr_eq choice_shape_def split: option.splits)

lemma pass1_shape:
  assumes "bottomDepth_pass1 pf a w = Inr w'"
  shows "choice_shape (stnData w')"
proof (cases "dbBathyFlag a")
  case True
  with assms have "dbBathy_pass1 pf (w\<lparr>stnData := assign_hdr_bottomDepth pf (stnData w)\<rparr>) = Inr w'"
    by (simp add: bottomDepth_pass1_def Let_def)
  from dbBathy_pass1_cases[OF this] assign_hdr_shape[of pf "stnData w"] show ?thesis
    by (auto simp: choice_shape_def)
next
  case False
  with assms have "w' = w\<lparr>stnData := assign_hdr_bottomDepth pf (stnData w)\<rparr>"
    by (simp add: bottomDepth_pass1_def Let_def)
  then show ?thesis by (simp add: assign_hdr_shape)
qed

lemma dless_irrefl [simp]: "\<not> dless v v"
  by (cases v) simp_all

lemma load_double_select [simp]:
  "load_double pf (stnData (select_profile w)) x = load_double pf (stnData w) x"
  "load_double pf (stnData (select_database w)) x = load_double pf (stnData w) x"
  by (simp_all add: select_profile_def select_database_def del: load_double.simps)

lemma pass2_not_less:
  assumes "bottomDepth_pass2 pf a w = Inr w'" and "choice_shape (stnData w)"
    and "0 < numberOfLevels (stnData w)"
  shows "\<exists>v. deref pf w' (bottomDepthPtr (stnData w')) = Inr v \<and>
           \<not> dless v (load_double pf (stnData w') (DepthValue (nat (numberOfLevels (stnData w') - 1))))"
proof -
  let ?deep = "load_double pf (stnData w) (DepthValue (nat (numberOfLevels (stnData w) - 1)))"
  from assms(2) consider
    (none) "bottomDepthPtr (stnData w) = NULL" |
    (hdr) j where "bottomDepthPtr (stnData w) = InStation (SecHdrValue j)" "bottomDepthSource (stnData w) = CHR ''h''" |
    (db) "bottomDepthPtr (stnData w) = DatabaseBathy" "bottomDepthSource (stnData w) = CHR ''d''"
    unfolding choice_shape_def by blast
  then show ?thesis
  proof cases
    case none
    with assms(1,3) have "w' = select_profile w" by (simp add: bottomDepth_pass2_def Let_def)
    then show ?thesis by (simp del: load_double.simps)
  next
    case hdr
    let ?h = "load_double pf (stnData w) (SecHdrValue j)"
    show ?thesis
    proof (cases "dless ?h ?deep")
      case False
      with hdr assms(1,3) have "w' = w"
        by (simp add: bottomDepth_pass2_def Let_def del: load_double.simps)
      with hdr False show ?thesis by (simp del: load_double.simps)
    next
      case True
      show ?thesis
      proof (cases "dbBathyFlag a \<and> \<not> dless (databaseBathyValue w) ?deep")
        case True
        with hdr \<open>dless ?h ?deep\<close> assms(1,3) have "w' = select_database w"
          by (simp add: bottomDepth_pass2_def Let_def del: load_double.simps)
        with True show ?thesis by (simp del: load_double.simps)
      next
        case False
        with hdr \<open>dless ?h ?deep\<close> assms(1,3) have "w' = select_profile w"
          by (auto simp: bottomDepth_pass2_def Let_def simp del: load_double.simps split: if_splits)
        then show ?thesis by (simp del: load_double.simps)
      qed
    qed
  next
    case db
    show ?thesis
    proof (cases "dless (databaseBathyValue w) ?deep")
      case True
      with db assms(1,3) have "w' = select_profile w"
        by (simp add: bottomDepth_pass2_def Let_def del: load_double.simps)
      then show ?thesis by (simp del: load_double.simps)
    next
      case False
      with db assms(1,3) have "w' = w"
        by (simp add: bottomDepth_pass2_def Let_def del: load_double.simps)
      with db False show ?thesis by (simp del: load_double.simps)
    qed
  qed
qed

lemma seq_append_last:
  "seq (fs @ [f]) w = Inr w' \<Longrightarrow> \<exists>w1. seq fs w = Inr w1 \<and> f w1 = Inr w'"
  by (induction fs arbitrary: w) (auto simp: andThen_Inr_iff)

text \<open>
  Claim C2, as amended. For every call of getOCLStationData that decodes the station,
  reads its profile, and finds a declared level count between 1 and \<^verbatim>\<open>MAX_LEVELS\<close>, the
  selected bottom depth is readable and never compares less than the depth of the last
  decoded level, whatever its source; when both are numbers it is greater or equal.
\<close>

theorem bottom_depth_not_shallower:
  assumes "getOCLStationData pf a w0 = Inr (SUCCESSFUL, w)"
    and "profile_read a (stnData w)"
    and "0 < numberOfLevels (stnData w)"
    and "numberOfLevels (stnData w) \<le> int MAX_LEVELS"
  shows "\<exists>v. deref pf w (bottomDepthPtr (stnData w)) = Inr v \<and>
           \<not> dless v (depthValue (stnData w) (nat (numberOfLevels (stnData w) - 1))) \<and>
           (\<forall>x y. v = Fin x \<and> depthValue (stnData w) (nat (numberOfLevels (stnData w) - 1)) = Fin y
                  \<longrightarrow> y \<le> x)"
proof -
  let ?wi = "w0\<lparr>stnData := (stnData w0)\<lparr>bytesLeftInStation := - 1\<rparr>\<rparr>"
  from assms(1) obtain w1 where "read_first_fields pf ?wi = Inr w1"
    and r: "(if skipFlag a \<and> stn a < stnToSkipTo a then
               Inr (SKIPPED, (if dbBathyFlag a then fscanf_dbBathy_dummy else id) (realign w1))
             else andThen (read_station_body pf a w1) (\<lambda>w'. Inr (SUCCESSFUL, realign w'))) = Inr (SUCCESSFUL, w)"
    unfolding getOCLStationData_def andThen_Inr_iff by blast
  then obtain w2 where body: "read_station_body pf a w1 = Inr w2" and w: "w = realign w2"
    by (auto simp: andThen_Inr_iff split: if_splits)
  from body obtain w3 where
    pre: "seq ([read_header_rest pf, read_skipped_block pf BytesInCharPI, read_secHdr pf] @
             [bottomDepth_pass1 pf a]) w1 = Inr w3"
    and post: "(let wf = w3\<lparr>stnData := set_filter_flags pf a (stnData w3)\<rparr>
       in if read_rest_wanted a (stnData wf) then
            seq [read_skipped_block pf BytesInBioHdr, read_profile pf a, bottomDepth_pass2 pf a] wf
          else Inr wf) = Inr w2"
    unfolding read_station_body_def andThen_Inr_iff by auto
  from seq_append_last[OF pre] obtain w1' where "bottomDepth_pass1 pf a w1' = Inr w3" by blast
  then have sh3: "choice_shape (stnData w3)" by (rule pass1_shape)
  define wf where "wf = w3\<lparr>stnData := set_filter_flags pf a (stnData w3)\<rparr>"
  from sh3 have shf: "choice_shape (stnData wf)" by (simp add: wf_def choice_shape_def)
  have wanted: "read_rest_wanted a (stnData wf)"
  proof (rule ccontr)
    assume n: "\<not> read_rest_wanted a (stnData wf)"
    with post have "w2 = wf" unfolding wf_def[symmetric] Let_def by simp
    with w have s: "stnData w = stnData wf" by simp
    from assms(2) n show False
      unfolding s profile_read_def read_rest_wanted_def reallyWantProfile_def
      using shf by (auto simp: choice_shape_def)
  qed
  with post have "seq [read_skipped_block pf BytesInBioHdr, read_profile pf a, bottomDepth_pass2 pf a] wf = Inr w2"
    unfolding wf_def[symmetric] Let_def by simp
  then obtain wb wp where bio: "read_skipped_block pf BytesInBioHdr wf = Inr wb"
    and prof: "read_profile pf a wb = Inr wp" and p2: "bottomDepth_pass2 pf a wp = Inr w2"
    by (auto simp: andThen_Inr_iff)
  from bio read_skipped_block_kept[of BytesInBioHdr pf] have "kept wf wb"
    by (auto simp: counts_kept_def dest: establishesD)
  moreover from read_profile_kept[OF prof]
  have "bottomDepthPtr (stnData wp) = bottomDepthPtr (stnData wb) \<and>
        bottomDepthSource (stnData wp) = bottomDepthSource (stnData wb)" by (simp add: kept_def)
  ultimately have shp: "choice_shape (stnData wp)" using shf by (simp add: kept_def choice_shape_def)
  from bottomDepth_pass2_frame[OF p2] have n: "numberOfLevels (stnData w2) = numberOfLevels (stnData wp)"
    by simp
  with assms(3) w have pos: "0 < numberOfLevels (stnData wp)" by simp
  from pass2_not_less[OF p2 shp pos] obtain v where
    v: "deref pf w2 (bottomDepthPtr (stnData w2)) = Inr v"
    "\<not> dless v (load_double pf (stnData w2) (DepthValue (nat (numberOfLevels (stnData w2) - 1))))"
    by blast
  from assms(3,4) w have idx: "nat (numberOfLevels (stnData w2) - 1) < MAX_LEVELS" by simp
  have d: "deref pf w (bottomDepthPtr (stnData w)) = deref pf w2 (bottomDepthPtr (stnData w2))"
    unfolding w by (cases "bottomDepthPtr (stnData w2)") (simp_all del: load_double.simps)
  from v idx have nl: "\<not> dless v (depthValue (stnData w) (nat (numberOfLevels (stnData w) - 1)))"
    unfolding w by simp
  then have "\<forall>x y. v = Fin x \<and> depthValue (stnData w) (nat (numberOfLevels (stnData w) - 1)) = Fin y
                  \<longrightarrow> y \<le> x" by auto
  with v(1) d nl show ?thesis by simp
qed

section \<open>A worked station\<close>

lemma example_run:
  "(case getOCLStationData example_platform no_filters (blank_world example_station_text) of
      Inl e \<Rightarrow> False
    | Inr (st, w) \<Rightarrow> st = SUCCESSFUL \<and> fp_in w = ''NEXT'' \<and> regular w \<and>
        bytesInStation (stnData w) = 76 \<and> bytesLeftInStation (stnData w) = 3 \<and>
        numberOfLevels (stnData w) = 2 \<and> bottomDepthSource (stnData w) = CHR ''h'' \<and>
        bottomDepthPtr (stnData w) = InStation (SecHdrValue 0) \<and>
        secHdrValue (stnData w) 0 = Fin 500 \<and> depthValue (stnData w) 1 = Fin 50 \<and>
        varListChecksOut (stnData w) = 1 \<and> badLatLon (stnData w) = 0 \<and>
        latlonInRange (stnData w) = 1 \<and> monthInRange (stnData w) = 1 \<and>
        yearInRange (stnData w) = 1 \<and> enoughProfileLevels (stnData w) = 1)"
  by code_simp

lemma example_first_fields:
  "(case read_first_fields example_platform
           ((blank_world example_station_text)
              \<lparr>fp_dbBathy := [(Fin 1, Fin 2, 0, Fin (- 3)), (Fin 1, Fin 2, 1, Fin (- 4))],
               stnData := blank_station\<lparr>bytesLeftInStation := - 1\<rparr>\<rparr>) of
      Inl e \<Rightarrow> False
    | Inr w1 \<Rightarrow>
        fgets_rest 79 (skip_loop (nat (bytesLeftInStation (stnData w1))) (fp_in w1)) = ''NEXT'' \<and>
        bytesInStation (stnData w1) = 76 \<and> oclStationNumber (stnData w1) = 7)"
  by code_simp

theorem station_byte_accounting_witness:
  "\<exists>body line. example_station_text = body @ line @ ''NEXT'' \<and> int (content body) = 76 \<and>
       line = fgets_line 79 (line @ ''NEXT'')"
proof -
  from example_run obtain st w where
    run: "getOCLStationData example_platform no_filters (blank_world example_station_text) = Inr (st, w)"
    and f: "fp_in w = ''NEXT''" "regular w" "bytesInStation (stnData w) = 76"
      "bytesLeftInStation (stnData w) = 3"
    by (auto split: sum.splits)
  have "content example_station_text = 82"
    by (simp add: example_station_text_def content_def is_newline_def)
  with f have enough: "bytesInStation (stnData w) \<le> int (content (fp_in (blank_world example_station_text)))"
    by (simp add: blank_world_def)
  from f have nonneg: "0 \<le> bytesLeftInStation (stnData w)" by simp
  from station_byte_accounting[OF run f(2) nonneg enough] f show ?thesis
    by (simp add: blank_world_def)
qed

theorem getOCLStationData_skip_ahead_witness:
  "(\<exists>w. getOCLStationData example_platform
           (no_filters\<lparr>skipFlag := True, stnToSkipTo := 5, dbBathyFlag := True\<rparr>)
           ((blank_world example_station_text)
              \<lparr>fp_dbBathy := [(Fin 1, Fin 2, 0, Fin (- 3)), (Fin 1, Fin 2, 1, Fin (- 4))]\<rparr>)
         = Inr (SKIPPED, w) \<and>
        fp_in w = ''NEXT'' \<and> fp_dbBathy w = [(Fin 1, Fin 2, 1, Fin (- 4))] \<and>
        bytesInStation (stnData w) = 76 \<and> oclStationNumber (stnData w) = 7 \<and>
        first_fields_only blank_station (stnData w)) \<and>
   (\<exists>w. getOCLStationData example_platform (no_filters\<lparr>skipFlag := True\<rparr>)
           (blank_world example_station_text) = Inr (SUCCESSFUL, w) \<and>
        numberOfLevels (stnData w) = 2 \<and> depthValue (stnData w) 1 = Fin 50)"
proof
  let ?a = "no_filters\<lparr>skipFlag := True, stnToSkipTo := 5, dbBathyFlag := True\<rparr>"
  let ?w0 = "(blank_world example_station_text)
              \<lparr>fp_dbBathy := [(Fin 1, Fin 2, 0, Fin (- 3)), (Fin 1, Fin 2, 1, Fin (- 4))]\<rparr>"
  have init: "?w0\<lparr>stnData := (stnData ?w0)\<lparr>bytesLeftInStation := - 1\<rparr>\<rparr> =
      (blank_world example_station_text)
              \<lparr>fp_dbBathy := [(Fin 1, Fin 2, 0, Fin (- 3)), (Fin 1, Fin 2, 1, Fin (- 4))],
               stnData := blank_station\<lparr>bytesLeftInStation := - 1\<rparr>\<rparr>"
    by (simp add: blank_world_def)
  from example_first_fields obtain w1 where
    r: "read_first_fields example_platform (?w0\<lparr>stnData := (stnData ?w0)\<lparr>bytesLeftInStation := - 1\<rparr>\<rparr>) = Inr w1"
    and f: "fgets_rest 79 (skip_loop (nat (bytesLeftInStation (stnData w1))) (fp_in w1)) = ''NEXT''"
      "bytesInStation (stnData w1) = 76" "oclStationNumber (stnData w1) = 7"
    unfolding init by (auto split: sum.splits)
  have sk: "skipFlag ?a \<and> stn ?a < stnToSkipTo ?a" by (simp add: no_filters_def)
  from getOCLStationData_skip_ahead[of ?a example_platform ?w0, THEN conjunct1, rule_format, OF sk,
      THEN conjunct2, rule_format, OF r] f
  show "\<exists>w. getOCLStationData example_platform ?a ?w0 = Inr (SKIPPED, w) \<and>
        fp_in w = ''NEXT'' \<and> fp_dbBathy w = [(Fin 1, Fin 2, 1, Fin (- 4))] \<and>
        bytesInStation (stnData w) = 76 \<and> oclStationNumber (stnData w) = 7 \<and>
        first_fields_only blank_station (stnData w)"
    by (simp add: blank_world_def no_filters_def)
next
  let ?a = "no_filters\<lparr>skipFlag := True\<rparr>"
  have n: "\<not> (skipFlag ?a \<and> stn ?a < stnToSkipTo ?a)" by (simp add: no_filters_def)
  have a: "?a\<lparr>skipFlag := False\<rparr> = no_filters" by (simp add: no_filters_def)
  from getOCLStationData_skip_ahead[of ?a example_platform "blank_world example_station_text",
      THEN conjunct2, rule_format, OF n]
  have "getOCLStationData example_platform ?a (blank_world example_station_text) =
        getOCLStationData example_platform no_filters (blank_world example_station_text)"
    unfolding a by simp
  with example_run show "\<exists>w. getOCLStationData example_platform ?a
           (blank_world example_station_text) = Inr (SUCCESSFUL, w) \<and>
        numberOfLevels (stnData w) = 2 \<and> depthValue (stnData w) 1 = Fin 50"
    by (auto split: sum.splits)
qed

theorem bottom_depth_not_shallower_witness:
  "\<exists>w. getOCLStationData example_platform no_filters (blank_world example_station_text) =
          Inr (SUCCESSFUL, w) \<and>
       numberOfLevels (stnData w) = 2 \<and> depthValue (stnData w) 1 = Fin 50 \<and>
       deref example_platform w (bottomDepthPtr (stnData w)) = Inr (Fin 500) \<and>
       \<not> dless (Fin 500) (Fin 50)"
proof -
  from example_run obtain w where
    run: "getOCLStationData example_platform no_filters (blank_world example_station_text) = Inr (SUCCESSFUL, w)"
    and f: "numberOfLevels (stnData w) = 2" "bottomDepthPtr (stnData w) = InStation (SecHdrValue 0)"
      "secHdrValue (stnData w) 0 = Fin 500" "depthValue (stnData w) 1 = Fin 50"
      "varListChecksOut (stnData w) = 1" "badLatLon (stnData w) = 0"
      "latlonInRange (stnData w) = 1" "monthInRange (stnData w) = 1"
      "yearInRange (stnData w) = 1" "enoughProfileLevels (stnData w) = 1"
    by (auto split: sum.splits)
  from f have pr: "profile_read no_filters (stnData w)"
    by (simp add: profile_read_def no_filters_def)
  from f have n: "0 < numberOfLevels (stnData w)" "numberOfLevels (stnData w) \<le> int MAX_LEVELS"
    by (simp_all add: MAX_LEVELS_def)
  from bottom_depth_not_shallower[OF run pr n] f run show ?thesis
    by (auto simp: MAX_VARS_def)
qed

section \<open>The variable codes\<close>

lemma overrun_run:
  "(case getOCLStationData example_platform no_filters (blank_world overrun_station_text) of
      Inl e \<Rightarrow> e = ArrayOverrun
    | Inr r \<Rightarrow> False)"
  by code_simp

text \<open>
  Claim C5. The decoded pairs of variable code and error code are to number the
  declared count and to lie within the arrays of \<^verbatim>\<open>MAX_VARS\<close> = 10 elements. The loop
  over the declared count has no bound (the loop over the profile levels has one): on
  a station that declares eleven variable codes the eleventh pair is stored beyond
  \<^verbatim>\<open>varCode\<close> and \<^verbatim>\<open>errCodeForVarCode\<close>.
\<close>

theorem variable_count_overrun:
  "getOCLStationData example_platform no_filters (blank_world overrun_station_text) = Inl ArrayOverrun"
  using overrun_run
  by (cases "getOCLStationData example_platform no_filters (blank_world overrun_station_text)") simp_all

section \<open>Stations whose bottom depth is not bounded by the profile\<close>

text \<open>
  Two runs of \<^const>\<open>getOCLStationData\<close> on which the selected bottom depth is not
  at least the depth of the last level that was read. On the station of 6001 levels the
  loop reads 6000 of them, the comparison and the pointer use element 6000 of
  \<^const>\<open>depthValue\<close>, which is outside the array, and on
  \<^const>\<open>example_platform\<close> that read gives 0, less than the depth 5 of level 5999.
  On the station whose last depth is missing that depth is \<^const>\<open>NaN\<close>, every
  comparison with it fails, and the header's 500 is kept.
\<close>

lemma getIntDigits_loop_code [code]:
  "getIntDigits_loop k valueStr nextch fp =
     (if k = 0 then Inr (valueStr, nextch, fp)
      else case fp of
             [] \<Rightarrow> Inl UnexpectedEOF
           | c # cs \<Rightarrow>
               if c = CHR 0xFF then Inl UnexpectedEOF
               else if is_newline c then getIntDigits_loop k valueStr c cs
               else if 10 \<le> length valueStr then Inl BufferOverrun
               else getIntDigits_loop (k - 1) (valueStr @ [c]) c cs)"
  by (cases fp) simp_all

lemma getIntDigits_one:
  assumes "isdigit c"
  shows "getIntDigits pf 1 (c # X) = Inr (SUCCESSFUL, Some (digit_val c), X)"
proof -
  from assms have c: "\<not> is_newline c" "c \<noteq> CHR 0xFF" by (auto dest: isdigit_facts)
  have "getIntDigits_loop 0 [c] c X = Inr ([c], c, X)" by (cases X) simp_all
  with c have "getIntDigits_loop (nat 1) [] (CHR 0x00) (c # X) = Inr ([c], c, X)" by simp
  moreover from assms have "sscanf_ld [c] = Some (digits_value [c])"
    by (intro sscanf_ld_digits) simp_all
  ultimately show ?thesis using assms by (simp add: getIntDigits_def digits_value_def)
qed

lemma read_level_tok:
  assumes "stationType (stnData w) = 0" "numberOfVarCodes (stnData w) = 0" "j < MAX_LEVELS"
    and "fp_in w = ''11050'' @ X"
  shows "\<exists>w'. read_level pf j w = Inr w' \<and> fp_in w' = X \<and>
           stationType (stnData w') = 0 \<and> numberOfVarCodes (stnData w') = 0 \<and>
           depthValue (stnData w') = (depthValue (stnData w))(j := Fin 5)"
proof -
  have d: "isdigit (CHR ''1'')" "isdigit (CHR ''0'')" "isdigit (CHR ''5'')"
    by (simp_all add: isdigit_def)
  have v: "digit_val (CHR ''1'') = 1" "digit_val (CHR ''0'') = 0" "digit_val (CHR ''5'') = 5"
    by (simp_all add: digit_val_def)
  show ?thesis
    using assms
    by (simp add: read_level_def getValueAndErrCode_def call_getVarlenFloatField_def
        getVarlenFloatField_def getIntDigits_one d v stored_def long_to_int_def scaled_def
        store_opt_double_def getIntDigits_else_def call_getIntDigits_def store_opt_long_def
        assign_default_def dec_bytesLeft_def for_upto_def MAX_LEVELS_def)
qed

lemma read_levels_tok:
  assumes "stationType (stnData w) = 0" "numberOfVarCodes (stnData w) = 0" "j + k \<le> MAX_LEVELS"
    and "fp_in w = concat (replicate k ''11050'') @ X"
  shows "\<exists>w'. seq (map (read_level pf) [j..<j + k]) w = Inr w' \<and> fp_in w' = X \<and>
           (\<forall>i. j \<le> i \<and> i < j + k \<longrightarrow> depthValue (stnData w') i = Fin 5)"
  using assms
proof (induction k arbitrary: j w)
  case 0
  then show ?case by auto
next
  case (Suc k)
  from Suc.prems have "fp_in w = ''11050'' @ (concat (replicate k ''11050'') @ X)" "j < MAX_LEVELS"
    by simp_all
  from read_level_tok[OF Suc.prems(1,2) this(2,1)] obtain w1 where
    w1: "read_level pf j w = Inr w1" "fp_in w1 = concat (replicate k ''11050'') @ X"
    "stationType (stnData w1) = 0" "numberOfVarCodes (stnData w1) = 0"
    "depthValue (stnData w1) = (depthValue (stnData w))(j := Fin 5)" by blast
  from Suc.prems have "Suc j + k \<le> MAX_LEVELS" by simp
  from Suc.IH[OF w1(3,4) this w1(2)] obtain w' where
    w': "seq (map (read_level pf) [Suc j..<Suc j + k]) w1 = Inr w'" "fp_in w' = X"
    "\<forall>i. Suc j \<le> i \<and> i < Suc j + k \<longrightarrow> depthValue (stnData w') i = Fin 5" by blast
  have "[j..<j + Suc k] = j # [Suc j..<Suc j + k]" by (simp add: upt_rec)
  then have run: "seq (map (read_level pf) [j..<j + Suc k]) w = Inr w'"
    using w1(1) w'(1) by simp
  have j: "depthValue (stnData w') j = Fin 5"
  proof -
    have "establishes (depth_same_on (\<lambda>i. i = j)) (seq (map (read_level pf) [Suc j..<Suc j + k]))"
      by (intro establishes_seq_map preorder_depth_same_on read_level_depth) auto
    with w'(1) w1(5) show ?thesis by (auto simp: depth_same_on_def dest!: establishesD)
  qed
  have "\<forall>i. j \<le> i \<and> i < j + Suc k \<longrightarrow> depthValue (stnData w') i = Fin 5"
  proof (intro allI impI)
    fix i assume "j \<le> i \<and> i < j + Suc k"
    then have "i = j \<or> (Suc j \<le> i \<and> i < Suc j + k)" by auto
    with j w'(3) show "depthValue (stnData w') i = Fin 5" by blast
  qed
  with run w'(2) show ?case by blast
qed

lemma deep_header_run:
  "(case andThen (read_first_fields example_platform
                    ((blank_world (deep_header_text @ T))
                       \<lparr>stnData := (stnData (blank_world (deep_header_text @ T)))\<lparr>bytesLeftInStation := - 1\<rparr>\<rparr>))
      (\<lambda>w1. andThen (seq [read_header_rest example_platform,
                           read_skipped_block example_platform BytesInCharPI,
                           read_secHdr example_platform,
                           bottomDepth_pass1 example_platform no_filters] w1)
        (\<lambda>w3. if read_rest_wanted no_filters (set_filter_flags example_platform no_filters (stnData w3))
                then read_skipped_block example_platform BytesInBioHdr
                       (w3\<lparr>stnData := set_filter_flags example_platform no_filters (stnData w3)\<rparr>)
                else Inl NullDereference)) of
      Inl e \<Rightarrow> False
    | Inr w \<Rightarrow> fp_in w = T \<and> stationType (stnData w) = 0 \<and> numberOfVarCodes (stnData w) = 0 \<and>
        numberOfLevels (stnData w) = 6001 \<and> bottomDepthPtr (stnData w) = NULL \<and>
        bytesLeftInStation (stnData w) = 30005 \<and> stderr w = [])"
  by code_simp

lemma missing_depth_run:
  "(case getOCLStationData example_platform no_filters (blank_world missing_depth_station_text) of
      Inl e \<Rightarrow> False
    | Inr (st, w) \<Rightarrow> st = SUCCESSFUL \<and> numberOfLevels (stnData w) = 2 \<and>
        bottomDepthPtr (stnData w) = InStation (SecHdrValue 0) \<and>
        secHdrValue (stnData w) 0 = Fin 500 \<and> depthValue (stnData w) 1 = NaN)"
  by code_simp

lemma getOCLStationData_stages:
  assumes "\<not> (skipFlag a \<and> stn a < stnToSkipTo a)"
    and "read_first_fields pf (w0\<lparr>stnData := (stnData w0)\<lparr>bytesLeftInStation := - 1\<rparr>\<rparr>) = Inr w1"
    and "seq [read_header_rest pf, read_skipped_block pf BytesInCharPI, read_secHdr pf,
              bottomDepth_pass1 pf a] w1 = Inr w3"
    and "read_rest_wanted a (set_filter_flags pf a (stnData w3))"
    and "read_skipped_block pf BytesInBioHdr (w3\<lparr>stnData := set_filter_flags pf a (stnData w3)\<rparr>) = Inr wb"
    and "read_profile pf a wb = Inr wp"
    and "bottomDepth_pass2 pf a wp = Inr w2"
  shows "getOCLStationData pf a w0 = Inr (SUCCESSFUL, realign w2)"
proof -
  from assms(5,6,7) have "seq [read_skipped_block pf BytesInBioHdr, read_profile pf a,
             bottomDepth_pass2 pf a] (w3\<lparr>stnData := set_filter_flags pf a (stnData w3)\<rparr>) = Inr w2"
    by simp
  with assms(3,4) have "read_station_body pf a w1 = Inr w2"
    unfolding read_station_body_def Let_def by (simp del: seq.simps)
  with assms(1,2) show ?thesis by (simp add: getOCLStationData_def)
qed

text \<open>
  Claim C2 as it is stated, that the selected bottom depth is at least the depth of the
  last level read whenever the profile is read and the level count is positive, fails on
  both stations: on the first the selected value 0 is less than the depth 5 of level
  5999, on the second the depth of the last level is \<^const>\<open>NaN\<close> and 500 is not at
  least it.
\<close>

theorem bottom_depth_shallower_counterexample:
  "(\<exists>w. getOCLStationData example_platform no_filters (blank_world deep_station_text) =
          Inr (SUCCESSFUL, w) \<and>
        numberOfLevels (stnData w) = 6001 \<and> depthValue (stnData w) 5999 = Fin 5 \<and>
        deref example_platform w (bottomDepthPtr (stnData w)) = Inr (Fin 0) \<and>
        dless (Fin 0) (Fin 5)) \<and>
   (\<exists>w. getOCLStationData example_platform no_filters (blank_world missing_depth_station_text) =
          Inr (SUCCESSFUL, w) \<and>
        numberOfLevels (stnData w) = 2 \<and> depthValue (stnData w) 1 = NaN \<and>
        deref example_platform w (bottomDepthPtr (stnData w)) = Inr (Fin 500) \<and>
        \<not> dle NaN (Fin 500))"
proof
  let ?pf = example_platform and ?a = no_filters
  let ?X = "''11050'' @ [CHR 0x0A] @ ''NEXT''"
  let ?T = "concat (replicate 6000 ''11050'') @ ?X"
  let ?w0 = "blank_world (deep_header_text @ ?T)"
  from deep_header_run[of ?T] obtain w1 w3 wb where
    f: "read_first_fields ?pf (?w0\<lparr>stnData := (stnData ?w0)\<lparr>bytesLeftInStation := - 1\<rparr>\<rparr>) = Inr w1"
    and h: "seq [read_header_rest ?pf, read_skipped_block ?pf BytesInCharPI, read_secHdr ?pf,
              bottomDepth_pass1 ?pf ?a] w1 = Inr w3"
    and wt: "read_rest_wanted ?a (set_filter_flags ?pf ?a (stnData w3))"
    and b: "read_skipped_block ?pf BytesInBioHdr (w3\<lparr>stnData := set_filter_flags ?pf ?a (stnData w3)\<rparr>) = Inr wb"
    and wb: "fp_in wb = ?T" "stationType (stnData wb) = 0" "numberOfVarCodes (stnData wb) = 0"
      "numberOfLevels (stnData wb) = 6001" "bottomDepthPtr (stnData wb) = NULL"
    by (auto simp: andThen_Inr_iff split: sum.splits if_splits simp del: seq.simps)
  have k: "min (nat (numberOfLevels (stnData wb))) MAX_LEVELS = 0 + 6000"
    by (simp add: wb MAX_LEVELS_def)
  have "\<exists>w'. seq (map (read_level ?pf) [0..<0 + 6000]) (warn_levels ?a wb) = Inr w' \<and> fp_in w' = ?X \<and>
           (\<forall>i. 0 \<le> i \<and> i < 0 + 6000 \<longrightarrow> depthValue (stnData w') i = Fin 5)"
    by (rule read_levels_tok) (simp_all add: wb MAX_LEVELS_def)
  then obtain wp where p: "read_profile ?pf ?a wb = Inr wp" and wp: "fp_in wp = ?X"
    "\<forall>i. 0 \<le> i \<and> i < 0 + 6000 \<longrightarrow> depthValue (stnData wp) i = Fin 5"
    unfolding read_profile_unfold k by blast
  from read_profile_kept[OF p] wb have kp: "bottomDepthPtr (stnData wp) = NULL"
    "numberOfLevels (stnData wp) = 6001" by (simp_all add: kept_def)
  then have p2: "bottomDepth_pass2 ?pf ?a wp = Inr (select_profile wp)"
    by (simp add: bottomDepth_pass2_def Let_def)
  from getOCLStationData_stages[OF _ f h wt b p p2]
  have run: "getOCLStationData ?pf ?a ?w0 = Inr (SUCCESSFUL, realign (select_profile wp))"
    by (simp add: no_filters_def)
  from wp(2) have d: "depthValue (stnData wp) 5999 = Fin 5" by simp
  have "deref ?pf (realign (select_profile wp)) (bottomDepthPtr (stnData (realign (select_profile wp))))
          = Inr (Fin 0)"
    by (simp add: kp MAX_LEVELS_def example_platform_def)
  with run d kp show "\<exists>w. getOCLStationData ?pf ?a (blank_world deep_station_text) =
          Inr (SUCCESSFUL, w) \<and>
        numberOfLevels (stnData w) = 6001 \<and> depthValue (stnData w) 5999 = Fin 5 \<and>
        deref ?pf w (bottomDepthPtr (stnData w)) = Inr (Fin 0) \<and> dless (Fin 0) (Fin 5)"
    unfolding deep_station_text_def by (intro exI[of _ "realign (select_profile wp)"]) simp
next
  from missing_depth_run show "\<exists>w. getOCLStationData example_platform no_filters (blank_world missing_depth_station_text) =
          Inr (SUCCESSFUL, w) \<and>
        numberOfLevels (stnData w) = 2 \<and> depthValue (stnData w) 1 = NaN \<and>
        deref example_platform w (bottomDepthPtr (stnData w)) = Inr (Fin 500) \<and>
        \<not> dle NaN (Fin 500)"
    by (auto split: sum.splits simp: MAX_VARS_def)
qed

end
